theory Spec2Isabelle
  imports Main "HOL-Library.Sublist"
begin

section \<open>Strings and the JavaScript built-ins the sources use\<close>

text \<open>
  A JavaScript string is modelled as a \<^typ>\<open>string\<close>, the list of its characters. The
  operations below are the ones the two source files apply to strings: \<open>a || b\<close> on
  strings (the first operand unless it is empty), \<open>s.startsWith(p)\<close>, \<open>s.includes(m)\<close>,
  \<open>xs.join(sep)\<close> and \<open>s.slice(-n)\<close>. \<open>trim\<close> and \<open>toUpperCase\<close> depend on the
  Unicode tables of the runtime and are taken as parameters wherever the sources call them.
  A character outside ASCII takes several elements of the list here (the bytes of its
  UTF-8 encoding) where JavaScript counts UTF-16 code units; the one place where that
  shows is the length at which \<open>slice(-3000)\<close> cuts the prompt of the assessor.
\<close>

definition or_str :: "string \<Rightarrow> string \<Rightarrow> string" where
  "or_str a b = (if a \<noteq> [] then a else b)"

definition startsWith :: "string \<Rightarrow> string \<Rightarrow> bool" where
  "startsWith s p = (take (length p) s = p)"

fun includes_str :: "string \<Rightarrow> string \<Rightarrow> bool" where
  "includes_str [] m = (m = [])"
| "includes_str (c # cs) m = (startsWith (c # cs) m \<or> includes_str cs m)"

fun join_with :: "string \<Rightarrow> string list \<Rightarrow> string" where
  "join_with sep [] = []"
| "join_with sep [x] = x"
| "join_with sep (x # y # ys) = x @ sep @ join_with sep (y # ys)"

definition slice_last :: "nat \<Rightarrow> string \<Rightarrow> string" where
  "slice_last n s = drop (length s - n) s"

text \<open>\<open>process.env\<close>: a variable that is not set reads as \<open>undefined\<close>, and
  \<open>process.env.X || ''\<close> is then the empty string.\<close>

type_synonym environment = "string \<rightharpoonup> string"

definition getenv :: "environment \<Rightarrow> string \<Rightarrow> string" where
  "getenv env k = (case env k of None \<Rightarrow> [] | Some v \<Rightarrow> v)"

text \<open>What a JavaScript \<open>throw\<close> carries: the SDK's \<open>AbortError\<close>, or any other error
  with its message.\<close>

datatype exn = AbortError | Error string

section \<open>\<open>smartContinue.ts\<close>: configuration and provider selection\<close>

record SmartContinueConfig =
  enabled :: bool
  model :: string
  maxRetries :: int
  bufferSize :: int
  completionMarker :: string
  timeoutMs :: int
  continueMessage :: string
  provider :: "string option"

text \<open>The default continuation message is a Chinese sentence, the one string of the
  sources that is not ASCII; it is written as the bytes of its UTF-8 encoding.\<close>

definition DEFAULT_continueMessage :: string where
  "DEFAULT_continueMessage = map char_of
    [229, 165, 189, 231, 154, 132, 239, 188, 140, 232, 175, 183, 228, 189, 160, 231, 187,
     167, 231, 187, 173, 230, 157, 165, 229, 134, 153, 227, 128, 130, 228, 189, 160, 229,
     156, 168, 229, 174, 140, 230, 136, 144, 228, 187, 187, 229, 138, 161, 228, 185, 139,
     229, 137, 141, 229, 129, 156, 228, 184, 139, 228, 186, 134, 239, 188, 140, 232, 175,
     183, 228, 187, 142, 228, 189, 160, 229, 129, 156, 230, 173, 162, 231, 154, 132, 229,
     156, 176, 230, 150, 185, 231, 187, 167, 231, 187, 173, 227, 128, 130 :: nat]"

definition DEFAULT_SMART_CONTINUE :: SmartContinueConfig where
  "DEFAULT_SMART_CONTINUE =
    \<lparr> enabled = True,
      model = ''claude-haiku-4-5-20251001'',
      maxRetries = 2,
      bufferSize = 5,
      completionMarker = ''[CHECKPOINT_COMPLETE]'',
      timeoutMs = 8000,
      continueMessage = DEFAULT_continueMessage,
      provider = None \<rparr>"

definition ASSESSMENT_PROMPT :: string where
  "ASSESSMENT_PROMPT =
    ''You are a task completion detector. Given the recent AI assistant output below, determine if the task is DONE or NOT_DONE.''
    @ [CHR 0x0A, CHR 0x0A] @ ''Rules:'' @ [CHR 0x0A]
    @ ''- DONE = explicit completion summary, all steps finished, or user-facing final report'' @ [CHR 0x0A]
    @ ''- NOT_DONE = mid-step, partial work, no conclusion, or stopped abruptly'' @ [CHR 0x0A, CHR 0x0A]
    @ ''Respond with exactly one word: DONE or NOT_DONE''"

definition DEFAULT_MODELS :: "string \<rightharpoonup> string" where
  "DEFAULT_MODELS =
    [''anthropic'' \<mapsto> ''claude-haiku-4-5-20251001'',
     ''openai'' \<mapsto> ''gpt-4o-mini'',
     ''gemini'' \<mapsto> ''gemini-2.0-flash'']"

text \<open>\<open>DEFAULT_MODELS.anthropic\<close> and its siblings: the three keys are in the table.\<close>

definition default_model :: "string \<Rightarrow> string" where
  "default_model p = (case DEFAULT_MODELS p of Some m \<Rightarrow> m | None \<Rightarrow> [])"

record ProviderConfig =
  pc_provider :: string
  apiKey :: string
  baseUrl :: string
  pc_model :: string

text \<open>Lines 83 to 114 of \<open>detectProvider\<close>: auto-detection, each provider in order.\<close>

definition auto_detect :: "environment \<Rightarrow> SmartContinueConfig \<Rightarrow> ProviderConfig option" where
  "auto_detect env config =
    (let anthropicKey = or_str (getenv env ''ANTHROPIC_AUTH_TOKEN'')
                               (or_str (getenv env ''ANTHROPIC_API_KEY'') []);
         openaiKey = or_str (getenv env ''OPENAI_API_KEY'') [];
         geminiKey = or_str (getenv env ''GEMINI_API_KEY'')
                            (or_str (getenv env ''GOOGLE_API_KEY'') [])
     in
     if anthropicKey \<noteq> [] then
       Some \<lparr> pc_provider = ''anthropic'', apiKey = anthropicKey,
              baseUrl = or_str (getenv env ''ANTHROPIC_BASE_URL'') ''https://api.anthropic.com'',
              pc_model = (if startsWith (model config) ''claude'' then model config
                          else default_model ''anthropic'') \<rparr>
     else if openaiKey \<noteq> [] then
       Some \<lparr> pc_provider = ''openai'', apiKey = openaiKey,
              baseUrl = or_str (getenv env ''OPENAI_BASE_URL'') ''https://api.openai.com'',
              pc_model = (if startsWith (model config) ''gpt'' then model config
                          else default_model ''openai'') \<rparr>
     else if geminiKey \<noteq> [] then
       Some \<lparr> pc_provider = ''gemini'', apiKey = geminiKey,
              baseUrl = ''https://generativelanguage.googleapis.com'',
              pc_model = (if startsWith (model config) ''gemini'' then model config
                          else default_model ''gemini'') \<rparr>
     else None)"

text \<open>
  \<open>detectProvider\<close>. The three leading blocks of the source (lines 49 to 81) each return
  only when the configured provider is theirs and a key is present; in every other case
  control reaches the auto-detection below them.
\<close>

definition detectProvider :: "environment \<Rightarrow> SmartContinueConfig \<Rightarrow> ProviderConfig option" where
  "detectProvider env config =
    (let anthropicKey = or_str (getenv env ''ANTHROPIC_AUTH_TOKEN'')
                               (or_str (getenv env ''ANTHROPIC_API_KEY'') []);
         openaiKey = or_str (getenv env ''OPENAI_API_KEY'') [];
         geminiKey = or_str (getenv env ''GEMINI_API_KEY'')
                            (or_str (getenv env ''GOOGLE_API_KEY'') [])
     in
     if provider config = Some ''anthropic'' \<and> anthropicKey \<noteq> [] then
       Some \<lparr> pc_provider = ''anthropic'', apiKey = anthropicKey,
              baseUrl = or_str (getenv env ''ANTHROPIC_BASE_URL'') ''https://api.anthropic.com'',
              pc_model = or_str (model config) (default_model ''anthropic'') \<rparr>
     else if provider config = Some ''openai'' \<and> openaiKey \<noteq> [] then
       Some \<lparr> pc_provider = ''openai'', apiKey = openaiKey,
              baseUrl = or_str (getenv env ''OPENAI_BASE_URL'') ''https://api.openai.com'',
              pc_model = or_str (model config) (default_model ''openai'') \<rparr>
     else if provider config = Some ''gemini'' \<and> geminiKey \<noteq> [] then
       Some \<lparr> pc_provider = ''gemini'', apiKey = geminiKey,
              baseUrl = ''https://generativelanguage.googleapis.com'',
              pc_model = or_str (model config) (default_model ''gemini'') \<rparr>
     else auto_detect env config)"

section \<open>JSON values and the provider clients\<close>

text \<open>
  A parsed JSON value. An object is the list of its properties, each key once; numbers are
  integers here. \<open>get_prop v k\<close> is \<open>v?.k\<close> and \<open>get_idx0 v\<close> is \<open>v?.[0]\<close>, with \<open>None\<close> for
  \<open>undefined\<close>: both give \<open>undefined\<close> on \<open>undefined\<close> and on \<open>null\<close>, and a key that
  is no property of the value reads as \<open>undefined\<close>. None of the keys the sources read is a
  built-in property of a string, a number, a boolean or an array.
\<close>

datatype json =
    JNull
  | JBool bool
  | JNum int
  | JStr string
  | JArr "json list"
  | JObj "(string \<times> json) list"

fun get_prop :: "json option \<Rightarrow> string \<Rightarrow> json option" where
  "get_prop (Some (JObj kvs)) k = map_of kvs k"
| "get_prop _ k = None"

fun get_idx0 :: "json option \<Rightarrow> json option" where
  "get_idx0 (Some (JArr (x # xs))) = Some x"
| "get_idx0 (Some (JStr (c # cs))) = Some (JStr [c])"
| "get_idx0 (Some (JObj kvs)) = map_of kvs ''0''"
| "get_idx0 _ = None"

fun truthy :: "json option \<Rightarrow> bool" where
  "truthy None = False"
| "truthy (Some JNull) = False"
| "truthy (Some (JBool b)) = b"
| "truthy (Some (JNum n)) = (n \<noteq> 0)"
| "truthy (Some (JStr s)) = (s \<noteq> [])"
| "truthy (Some (JArr xs)) = True"
| "truthy (Some (JObj kvs)) = True"

record runtime =
  trim :: "string \<Rightarrow> string"
  toUpperCase :: "string \<Rightarrow> string"

text \<open>\<open>v?.trim().toUpperCase() ?? ''\<close>: the empty string for \<open>undefined\<close> and \<open>null\<close>, the
  normalised text for a string, and a \<open>TypeError\<close> for any other value, which has no
  \<open>trim\<close> method.\<close>

fun text_answer :: "runtime \<Rightarrow> json option \<Rightarrow> exn + string" where
  "text_answer rt None = Inr []"
| "text_answer rt (Some JNull) = Inr []"
| "text_answer rt (Some (JStr s)) = Inr (toUpperCase rt (trim rt s))"
| "text_answer rt (Some v) = Inl (Error ''TypeError: trim is not a function'')"

function show_nat :: "nat \<Rightarrow> string" where
  "show_nat n =
    (if n < 10 then [char_of (48 + n)] else show_nat (n div 10) @ [char_of (48 + n mod 10)])"
  by pat_completeness auto
termination
  by (relation "measure id") auto

text \<open>
  \<open>fetch\<close>: the request the client sends and what comes back. The call rejects (\<open>Inl\<close>:
  network failure, or the \<open>AbortSignal.timeout\<close> deadline) or yields a response, whose
  \<open>json()\<close> rejects on a body that is not JSON.
\<close>

record request =
  url :: string
  headers :: "(string \<times> string) list"
  body :: json
  timeout :: int

record response =
  ok :: bool
  status :: nat
  json_body :: "exn + json"

type_synonym fetch = "request \<Rightarrow> exn + response"

definition user_messages :: "string \<Rightarrow> json" where
  "user_messages prompt = JArr [JObj [(''role'', JStr ''user''), (''content'', JStr prompt)]]"

text \<open>
  \<open>data.k\<close> with a plain dot, the first step of each client into the parsed body: on
  \<open>null\<close> it throws a \<open>TypeError\<close>, on any other value it reads like \<open>data?.k\<close>.
\<close>

definition member :: "json \<Rightarrow> string \<Rightarrow> exn + json option" where
  "member data k =
    (if data = JNull then Inl (Error ''TypeError: cannot read properties of null'')
     else Inr (get_prop (Some data) k))"

text \<open>The request of each client (lines 118 to 131, 138 to 150 and 157 to 166).\<close>

definition anthropic_request :: "ProviderConfig \<Rightarrow> string \<Rightarrow> int \<Rightarrow> request" where
  "anthropic_request pc prompt timeout_ms =
    \<lparr> url = baseUrl pc @ ''/v1/messages'',
      headers = [(''Content-Type'', ''application/json''),
                 (''x-api-key'', apiKey pc),
                 (''anthropic-version'', ''2023-06-01'')],
      body = JObj [(''model'', JStr (pc_model pc)), (''max_tokens'', JNum 10),
                   (''messages'', user_messages prompt)],
      timeout = timeout_ms \<rparr>"

definition openai_request :: "ProviderConfig \<Rightarrow> string \<Rightarrow> int \<Rightarrow> request" where
  "openai_request pc prompt timeout_ms =
    \<lparr> url = baseUrl pc @ ''/v1/chat/completions'',
      headers = [(''Content-Type'', ''application/json''),
                 (''Authorization'', ''Bearer '' @ apiKey pc)],
      body = JObj [(''model'', JStr (pc_model pc)), (''max_tokens'', JNum 10),
                   (''messages'', user_messages prompt)],
      timeout = timeout_ms \<rparr>"

definition gemini_request :: "ProviderConfig \<Rightarrow> string \<Rightarrow> int \<Rightarrow> request" where
  "gemini_request pc prompt timeout_ms =
    \<lparr> url = baseUrl pc @ ''/v1beta/models/'' @ pc_model pc
              @ '':generateContent?key='' @ apiKey pc,
      headers = [(''Content-Type'', ''application/json'')],
      body = JObj [(''contents'',
                    JArr [JObj [(''parts'', JArr [JObj [(''text'', JStr prompt)]])]]),
                   (''generationConfig'', JObj [(''maxOutputTokens'', JNum 10)])],
      timeout = timeout_ms \<rparr>"

definition callAnthropic :: "runtime \<Rightarrow> fetch \<Rightarrow> ProviderConfig \<Rightarrow> string \<Rightarrow> int \<Rightarrow> exn + string" where
  "callAnthropic rt fetch pc prompt timeout_ms =
    (case fetch (anthropic_request pc prompt timeout_ms) of
       Inl e \<Rightarrow> Inl e
     | Inr resp \<Rightarrow>
         if \<not> ok resp then Inl (Error (''Anthropic API returned '' @ show_nat (status resp)))
         else (case json_body resp of
                 Inl e \<Rightarrow> Inl e
               | Inr data \<Rightarrow>
                   (case member data ''content'' of
                      Inl e \<Rightarrow> Inl e
                    | Inr content \<Rightarrow> text_answer rt (get_prop (get_idx0 content) ''text''))))"

definition callOpenAI :: "runtime \<Rightarrow> fetch \<Rightarrow> ProviderConfig \<Rightarrow> string \<Rightarrow> int \<Rightarrow> exn + string" where
  "callOpenAI rt fetch pc prompt timeout_ms =
    (case fetch (openai_request pc prompt timeout_ms) of
       Inl e \<Rightarrow> Inl e
     | Inr resp \<Rightarrow>
         if \<not> ok resp then Inl (Error (''OpenAI API returned '' @ show_nat (status resp)))
         else (case json_body resp of
                 Inl e \<Rightarrow> Inl e
               | Inr data \<Rightarrow>
                   (case member data ''choices'' of
                      Inl e \<Rightarrow> Inl e
                    | Inr choices \<Rightarrow>
                        text_answer rt (get_prop (get_prop (get_idx0 choices) ''message'') ''content''))))"

definition callGemini :: "runtime \<Rightarrow> fetch \<Rightarrow> ProviderConfig \<Rightarrow> string \<Rightarrow> int \<Rightarrow> exn + string" where
  "callGemini rt fetch pc prompt timeout_ms =
    (case fetch (gemini_request pc prompt timeout_ms) of
       Inl e \<Rightarrow> Inl e
     | Inr resp \<Rightarrow>
         if \<not> ok resp then Inl (Error (''Gemini API returned '' @ show_nat (status resp)))
         else (case json_body resp of
                 Inl e \<Rightarrow> Inl e
               | Inr data \<Rightarrow>
                   (case member data ''candidates'' of
                      Inl e \<Rightarrow> Inl e
                    | Inr candidates \<Rightarrow>
                        text_answer rt
                          (get_prop (get_idx0 (get_prop (get_prop (get_idx0 candidates) ''content'')
                                                 ''parts'')) ''text''))))"

definition callers ::
  "string \<rightharpoonup> (runtime \<Rightarrow> fetch \<Rightarrow> ProviderConfig \<Rightarrow> string \<Rightarrow> int \<Rightarrow> exn + string)" where
  "callers = [''anthropic'' \<mapsto> callAnthropic, ''openai'' \<mapsto> callOpenAI, ''gemini'' \<mapsto> callGemini]"

text \<open>
  \<open>assessTaskCompletion\<close>. The result is a sum so that an exception leaving the function
  would be a value \<open>Inl\<close>; the \<open>try\<close> around the provider call turns every rejection of
  the call into \<open>false\<close>.
\<close>

definition assessment_prompt :: "string list \<Rightarrow> string" where
  "assessment_prompt recentTexts =
    (let context = slice_last 3000 (join_with ([CHR 0x0A] @ ''---'' @ [CHR 0x0A]) recentTexts)
     in ASSESSMENT_PROMPT @ [CHR 0x0A, CHR 0x0A] @ ''<recent_output>'' @ [CHR 0x0A]
        @ context @ [CHR 0x0A] @ ''</recent_output>'')"

definition assessTaskCompletion ::
  "runtime \<Rightarrow> environment \<Rightarrow> fetch \<Rightarrow> string list \<Rightarrow> SmartContinueConfig \<Rightarrow> exn + bool" where
  "assessTaskCompletion rt env fetch recentTexts config =
    (case detectProvider env config of
       None \<Rightarrow> Inr False
     | Some pc \<Rightarrow>
         let prompt = assessment_prompt recentTexts
         in (case callers (pc_provider pc) of
               None \<Rightarrow> Inr False
             | Some caller \<Rightarrow>
                 (case caller rt fetch pc prompt (timeoutMs config) of
                    Inr answer \<Rightarrow> Inr (answer = ''DONE'')
                  | Inl err \<Rightarrow> Inr False)))"

section \<open>\<open>smartContinue.ts\<close>: loading the checkpoint configuration\<close>

text \<open>
  The file system as \<open>existsSync\<close> and \<open>readFileSync\<close> see it. A path is the list of the
  segments handed to \<open>join\<close>. A path may exist and still fail to be read (a directory, a
  permission), which \<open>readFileSync\<close> reports by throwing.
\<close>

datatype fs_entry = Missing | Unreadable exn | File string

type_synonym filesystem = "string list \<Rightarrow> fs_entry"

definition existsSync :: "filesystem \<Rightarrow> string list \<Rightarrow> bool" where
  "existsSync fs path = (fs path \<noteq> Missing)"

definition readFileSync :: "filesystem \<Rightarrow> string list \<Rightarrow> exn + string" where
  "readFileSync fs path =
    (case fs path of
       Missing \<Rightarrow> Inl (Error ''ENOENT'')
     | Unreadable e \<Rightarrow> Inl e
     | File s \<Rightarrow> Inr s)"

text \<open>
  The fields of the \<open>smartContinue\<close> section, read at the types the interface
  \<open>SmartContinueConfig\<close> declares. The outer \<open>None\<close> marks a value of another type: the
  source would carry it into the record unchecked, where this typed record cannot follow,
  so such a document is reported as \<open>IllTyped\<close> and nothing is stated about it. The inner
  \<open>None\<close> is \<open>undefined\<close> or \<open>null\<close>, which \<open>??\<close> replaces by the default.
\<close>

fun as_bool :: "json option \<Rightarrow> bool option option" where
  "as_bool None = Some None"
| "as_bool (Some JNull) = Some None"
| "as_bool (Some (JBool b)) = Some (Some b)"
| "as_bool (Some v) = None"

fun as_string :: "json option \<Rightarrow> string option option" where
  "as_string None = Some None"
| "as_string (Some JNull) = Some None"
| "as_string (Some (JStr s)) = Some (Some s)"
| "as_string (Some v) = None"

fun as_int :: "json option \<Rightarrow> int option option" where
  "as_int None = Some None"
| "as_int (Some JNull) = Some None"
| "as_int (Some (JNum n)) = Some (Some n)"
| "as_int (Some v) = None"

definition nullish :: "'a option \<Rightarrow> 'a \<Rightarrow> 'a" where
  "nullish v d = (case v of None \<Rightarrow> d | Some x \<Rightarrow> x)"

datatype load_result = Loaded "SmartContinueConfig option" | IllTyped

definition config_of_section :: "json option \<Rightarrow> load_result" where
  "config_of_section sc =
    (case (as_bool (get_prop sc ''enabled''), as_string (get_prop sc ''model''),
           as_int (get_prop sc ''maxRetries''), as_int (get_prop sc ''bufferSize''),
           as_string (get_prop sc ''completionMarker''), as_int (get_prop sc ''timeoutMs''),
           as_string (get_prop sc ''continueMessage''), as_string (get_prop sc ''provider'')) of
       (Some e, Some m, Some r, Some b, Some c, Some t, Some msg, Some p) \<Rightarrow>
         Loaded (Some
           \<lparr> enabled = nullish e (enabled DEFAULT_SMART_CONTINUE),
             model = nullish m (model DEFAULT_SMART_CONTINUE),
             maxRetries = nullish r (maxRetries DEFAULT_SMART_CONTINUE),
             bufferSize = nullish b (bufferSize DEFAULT_SMART_CONTINUE),
             completionMarker = nullish c (completionMarker DEFAULT_SMART_CONTINUE),
             timeoutMs = nullish t (timeoutMs DEFAULT_SMART_CONTINUE),
             continueMessage = nullish msg (continueMessage DEFAULT_SMART_CONTINUE),
             provider = p \<rparr>)
     | _ \<Rightarrow> IllTyped)"

text \<open>\<open>loadCheckpointConfig\<close>: every \<open>Inl\<close> of a read or of \<open>JSON.parse\<close> is an exception
  inside the \<open>try\<close>, and the \<open>catch\<close> returns \<open>null\<close>.\<close>

definition loadCheckpointConfig ::
  "runtime \<Rightarrow> filesystem \<Rightarrow> (string \<Rightarrow> exn + json) \<Rightarrow> string \<Rightarrow> load_result" where
  "loadCheckpointConfig rt fs JSON_parse cwd =
    (let currentFile = [cwd, ''.checkpoints'', ''current''] in
     if \<not> existsSync fs currentFile then Loaded None
     else (case readFileSync fs currentFile of
             Inl e \<Rightarrow> Loaded None
           | Inr content \<Rightarrow>
               let threadId = trim rt content in
               if threadId = [] then Loaded None
               else
                 let threadJsonPath = [cwd, ''.checkpoints'', ''threads'', threadId, ''thread.json''] in
                 if existsSync fs threadJsonPath then
                   (case readFileSync fs threadJsonPath of
                      Inl e \<Rightarrow> Loaded None
                    | Inr txt \<Rightarrow>
                        (case JSON_parse txt of
                           Inl e \<Rightarrow> Loaded None
                         | Inr threadData \<Rightarrow>
                             let sc = get_prop (get_prop (Some threadData) ''config'') ''smartContinue'' in
                             if truthy sc then config_of_section sc
                             else Loaded (Some DEFAULT_SMART_CONTINUE)))
                 else Loaded (Some DEFAULT_SMART_CONTINUE)))"

section \<open>Messages of the SDK stream\<close>

datatype block = Block (block_type: string) (block_text: "string option") (tool_use_id: "string option")

datatype user_content = Text string | Blocks "block list"

text \<open>
  The messages the driver tells apart: \<open>system\<close> with its subtype and session id,
  \<open>assistant\<close> with \<open>message?.content\<close>, \<open>result\<close> with its subtype and \<open>num_turns\<close>,
  \<open>user\<close> with the role and content of its message, and any other type.
\<close>

datatype SDKMessage =
    SystemMsg string "string option"
  | AssistantMsg "block list option"
  | ResultMsg string int
  | UserMsg string user_content
  | OtherMsg string

definition text_of_block :: "block \<Rightarrow> string list" where
  "text_of_block b =
    (case block_text b of
       Some t \<Rightarrow> if block_type b = ''text'' \<and> t \<noteq> [] then [t] else []
     | None \<Rightarrow> [])"

definition extractAssistantText :: "SDKMessage \<Rightarrow> string option" where
  "extractAssistantText message =
    (case message of
       AssistantMsg content \<Rightarrow>
         let texts = concat (map text_of_block (case content of None \<Rightarrow> [] | Some bs \<Rightarrow> bs))
         in if length texts > 0 then Some (join_with [CHR 0x0A] texts) else None
     | _ \<Rightarrow> None)"

section \<open>\<open>claudeRemote.ts\<close>: the session driver\<close>

text \<open>
  What the driver does to the outside, in the order it does it: the callbacks of \<open>opts\<close>
  it calls, the user messages it pushes into the SDK's input (\<open>Push\<close>, with the content),
  \<open>messages.end()\<close>, each wait for \<open>opts.nextMessage()\<close> and for the session file, and
  each call of \<open>assessTaskCompletion\<close> with the texts it is given. For a callback that is
  optional and was not supplied, the effect is the point where it would have been called.
  Callbacks are taken to return normally.
\<close>

datatype effect =
    OnMessage SDKMessage
  | OnThinkingChange bool
  | OnSessionFound string
  | OnCompletionEvent string
  | OnSessionReset
  | OnReady
  | AwaitFileExist string
  | Push string
  | End
  | NextMessage
  | Assess "string list"

text \<open>
  The local variables of \<open>claudeRemote\<close> that live across loop iterations, the trace of
  effects, and how many times \<open>nextMessage\<close> and the assessor have been called so far.
  The permission mode carried along with each message, the \<open>--resume\<close> scan and the SDK
  options only feed the SDK query and are left out.
\<close>

record driver =
  autoContinueCount :: nat
  smartContinueCount :: nat
  recentAssistantTexts :: "string list"
  isCompactCommand :: bool
  thinking :: bool
  effects :: "effect list"
  nextMessageCalls :: nat
  assessCalls :: nat

text \<open>
  What surrounds one run of the driver: the string built-ins, \<open>process.env\<close> as it is when
  the driver starts, \<open>opts.claudeEnvVars\<close>, the answer of the network to each request of
  the \<open>k\<close>-th assessment, the answer of the \<open>k\<close>-th call of \<open>opts.nextMessage\<close> (\<open>None\<close>
  for \<open>null\<close>), \<open>opts.isAborted\<close>, and the \<open>type\<close> that \<open>parseSpecialCommand\<close> gives a
  message.
\<close>

record world =
  rt :: runtime
  process_env :: environment
  claudeEnvVars :: "(string \<times> string) list option"
  net :: "nat \<Rightarrow> fetch"
  nextMessage :: "nat \<Rightarrow> string option"
  isAborted :: "string \<Rightarrow> bool"
  parseSpecialCommand :: "string \<Rightarrow> string"

datatype control = Next | Return | Throw exn

datatype stream_end = Finished | Raises exn

datatype completion = Normal | Threw exn

definition MAX_AUTO_CONTINUE :: nat where
  "MAX_AUTO_CONTINUE = 3"

definition AUTO_CONTINUE_MESSAGE :: string where
  "AUTO_CONTINUE_MESSAGE =
    ''Continue. You stopped before completing the task. Pick up where you left off.''"

definition emit :: "effect \<Rightarrow> driver \<Rightarrow> driver" where
  "emit e s = s\<lparr>effects := effects s @ [e]\<rparr>"

definition updateThinking :: "bool \<Rightarrow> driver \<Rightarrow> driver" where
  "updateThinking newThinking s =
    (if thinking s \<noteq> newThinking
     then emit (OnThinkingChange newThinking) (s\<lparr>thinking := newThinking\<rparr>)
     else s)"

text \<open>Lines 73 to 79: the environment the assessor later reads.\<close>

definition session_env :: "world \<Rightarrow> environment" where
  "session_env W =
    (fold (\<lambda>(k, v) e. e(k \<mapsto> v))
          (case claudeEnvVars W of None \<Rightarrow> [] | Some kvs \<Rightarrow> kvs)
          (process_env W))
    (''DISABLE_AUTOUPDATER'' \<mapsto> ''1'')"

text \<open>Lines 176 to 182: the rolling buffer of assistant texts.\<close>

definition buffer_text :: "SmartContinueConfig option \<Rightarrow> SDKMessage \<Rightarrow> driver \<Rightarrow> driver" where
  "buffer_text cfg message s =
    (case (extractAssistantText message, cfg) of
       (Some assistantText, Some c) \<Rightarrow>
         if assistantText \<noteq> [] then
           let pushed = recentAssistantTexts s @ [assistantText] in
           s\<lparr>recentAssistantTexts :=
               (if int (length pushed) > bufferSize c then tl pushed else pushed)\<rparr>
         else s
     | _ \<Rightarrow> s)"

text \<open>Lines 188 to 203: the \<open>system\<close>/\<open>init\<close> message.\<close>

definition handle_init :: "SDKMessage \<Rightarrow> driver \<Rightarrow> driver" where
  "handle_init message s =
    (case message of
       SystemMsg subtype session_id \<Rightarrow>
         if subtype = ''init'' then
           let s1 = updateThinking True s in
           (case session_id of
              Some sid \<Rightarrow>
                if sid \<noteq> [] then emit (OnSessionFound sid) (emit (AwaitFileExist sid) s1) else s1
            | None \<Rightarrow> s1)
         else s
     | _ \<Rightarrow> s)"

text \<open>Lines 241 to 260: completion of the turn, and the next message of the caller.\<close>

definition turn_complete :: "world \<Rightarrow> driver \<Rightarrow> control \<times> driver" where
  "turn_complete W s =
    (let s1 = (if isCompactCommand s
               then (emit (OnCompletionEvent ''Compaction completed'') s)\<lparr>isCompactCommand := False\<rparr>
               else s);
         s2 = emit OnReady s1;
         s3 = (emit NextMessage s2)\<lparr>nextMessageCalls := nextMessageCalls s2 + 1\<rparr>
     in (case nextMessage W (nextMessageCalls s2) of
           None \<Rightarrow> (Return, emit End s3)
         | Some next_msg \<Rightarrow> (Next, emit (Push next_msg) s3)))"

text \<open>Lines 206 to 239: a \<open>result\<close> message, with the two continuation gates.\<close>

definition handle_result ::
  "world \<Rightarrow> SmartContinueConfig option \<Rightarrow> string \<Rightarrow> int \<Rightarrow> driver \<Rightarrow> control \<times> driver" where
  "handle_result W cfg subtype num_turns s =
    (let s1 = updateThinking False s in
     if subtype = ''success'' \<and> num_turns \<le> 1 \<and> \<not> isCompactCommand s1
        \<and> autoContinueCount s1 < MAX_AUTO_CONTINUE
     then
       (Next, updateThinking True
                (emit (Push AUTO_CONTINUE_MESSAGE)
                   (s1\<lparr>autoContinueCount := autoContinueCount s1 + 1\<rparr>)))
     else
       let s2 = s1\<lparr>autoContinueCount := 0\<rparr> in
       (case cfg of
          None \<Rightarrow> turn_complete W s2
        | Some c \<Rightarrow>
            if enabled c \<and> \<not> isCompactCommand s2 \<and> int (smartContinueCount s2) < maxRetries c
            then
              let hasCompletionMarker =
                    list_ex (\<lambda>t. includes_str t (completionMarker c)) (recentAssistantTexts s2)
              in
              if \<not> hasCompletionMarker \<and> subtype = ''success'' \<and> num_turns > 1 then
                let s3 = (emit (Assess (recentAssistantTexts s2)) s2)
                           \<lparr>assessCalls := assessCalls s2 + 1\<rparr>
                in
                (case assessTaskCompletion (rt W) (session_env W) (net W (assessCalls s2))
                        (recentAssistantTexts s2) c of
                   Inl e \<Rightarrow> (Throw e, s3)
                 | Inr isDone \<Rightarrow>
                     if \<not> isDone then
                       (Next, updateThinking True
                                (emit (Push (continueMessage c))
                                   (s3\<lparr>smartContinueCount := smartContinueCount s3 + 1\<rparr>)))
                     else turn_complete W s3)
              else turn_complete W s2
            else turn_complete W s2))"

text \<open>Lines 264 to 274: a tool result of an aborted tool call ends the driver.\<close>

definition aborted_tool_result :: "world \<Rightarrow> block \<Rightarrow> bool" where
  "aborted_tool_result W c =
    (block_type c = ''tool_result''
     \<and> (case tool_use_id c of None \<Rightarrow> False | Some i \<Rightarrow> i \<noteq> [] \<and> isAborted W i))"

definition handle_tool_result :: "world \<Rightarrow> string \<Rightarrow> user_content \<Rightarrow> control" where
  "handle_tool_result W role content =
    (case content of
       Blocks bs \<Rightarrow> if role = ''user'' \<and> list_ex (aborted_tool_result W) bs then Return else Next
     | Text t \<Rightarrow> Next)"

text \<open>The body of the \<open>for await\<close> loop, for one message.\<close>

definition loop_body ::
  "world \<Rightarrow> SmartContinueConfig option \<Rightarrow> SDKMessage \<Rightarrow> driver \<Rightarrow> control \<times> driver" where
  "loop_body W cfg message s =
    (let s1 = buffer_text cfg message s;
         s2 = emit (OnMessage message) s1;
         s3 = handle_init message s2
     in (case message of
           ResultMsg subtype num_turns \<Rightarrow> handle_result W cfg subtype num_turns s3
         | UserMsg role content \<Rightarrow> (handle_tool_result W role content, s3)
         | _ \<Rightarrow> (Next, s3)))"

text \<open>The iteration over the stream, which ends by itself or by throwing.\<close>

fun iterate ::
  "world \<Rightarrow> SmartContinueConfig option \<Rightarrow> SDKMessage list \<Rightarrow> stream_end \<Rightarrow> driver
    \<Rightarrow> completion \<times> driver" where
  "iterate W cfg [] Finished s = (Normal, s)"
| "iterate W cfg [] (Raises e) s = (Threw e, s)"
| "iterate W cfg (m # ms) fin s =
    (case loop_body W cfg m s of
       (Next, s') \<Rightarrow> iterate W cfg ms fin s'
     | (Return, s') \<Rightarrow> (Normal, s')
     | (Throw e, s') \<Rightarrow> (Threw e, s'))"

definition initial_driver :: driver where
  "initial_driver =
    \<lparr> autoContinueCount = 0, smartContinueCount = 0, recentAssistantTexts = [],
      isCompactCommand = False, thinking = False, effects = [],
      nextMessageCalls = 0, assessCalls = 0 \<rparr>"

text \<open>
  Lines 81 to 168 of \<open>claudeRemote\<close>: the first message and the special commands. \<open>Inl\<close>
  is a return before the loop, \<open>Inr\<close> the state in which the \<open>try\<close> is entered.
\<close>

definition prepare :: "world \<Rightarrow> driver + driver" where
  "prepare W =
    (let s0 = (emit NextMessage initial_driver)\<lparr>nextMessageCalls := 1\<rparr> in
     case nextMessage W 0 of
       None \<Rightarrow> Inl s0
     | Some initial \<Rightarrow>
         let special = parseSpecialCommand W initial in
         if special = ''clear'' then
           Inl (emit OnSessionReset (emit (OnCompletionEvent ''Context was reset'') s0))
         else
           let s1 = (if special = ''compact''
                     then (emit (OnCompletionEvent ''Compaction started'') s0)\<lparr>isCompactCommand := True\<rparr>
                     else s0)
           in Inr (updateThinking True (emit (Push initial) s1)))"

text \<open>Lines 276 to 285: the \<open>catch\<close> swallows \<open>AbortError\<close> and throws anything else
  again; the \<open>finally\<close> runs on every way out of the \<open>try\<close>.\<close>

definition catch_finally :: "completion \<times> driver \<Rightarrow> completion \<times> driver" where
  "catch_finally r =
    (case r of
       (Threw AbortError, s) \<Rightarrow> (Normal, updateThinking False s)
     | (Threw e, s) \<Rightarrow> (Threw e, updateThinking False s)
     | (Normal, s) \<Rightarrow> (Normal, updateThinking False s))"

text \<open>
  \<open>claudeRemote\<close>. \<open>cfg\<close> is what \<open>loadCheckpointConfig(opts.path)\<close> returned; the stream
  is what the SDK query yields.
\<close>

definition claudeRemote ::
  "world \<Rightarrow> SmartContinueConfig option \<Rightarrow> SDKMessage list \<Rightarrow> stream_end \<Rightarrow> completion \<times> driver" where
  "claudeRemote W cfg stream fin =
    (case prepare W of
       Inl s \<Rightarrow> (Normal, s)
     | Inr s \<Rightarrow> catch_finally (iterate W cfg stream fin s))"

text \<open>The thinking indicator as the caller knows it: the last value \<open>onThinkingChange\<close>
  was called with, inactive before the first call.\<close>

definition thinking_after :: "bool \<Rightarrow> effect \<Rightarrow> bool" where
  "thinking_after b e = (case e of OnThinkingChange t \<Rightarrow> t | _ \<Rightarrow> b)"

definition indicator :: "effect list \<Rightarrow> bool" where
  "indicator es = foldl thinking_after False es"

section \<open>The properties in the words of the specification\<close>

text \<open>The condition under which the structural auto-continue gate is said to fire.\<close>

definition auto_continue_fires :: "string \<Rightarrow> int \<Rightarrow> driver \<Rightarrow> bool" where
  "auto_continue_fires subtype num_turns s =
    (subtype = ''success'' \<and> num_turns \<le> 1 \<and> \<not> isCompactCommand s \<and> autoContinueCount s < 3)"

text \<open>The effects of a turn that falls through to completion, after the message itself
  has been forwarded and the thinking indicator cleared.\<close>

definition completion_effects :: "world \<Rightarrow> driver \<Rightarrow> effect list" where
  "completion_effects W s =
    (if isCompactCommand s then [OnCompletionEvent ''Compaction completed''] else [])
    @ [OnReady, NextMessage]
    @ (case nextMessage W (nextMessageCalls s) of None \<Rightarrow> [End] | Some m \<Rightarrow> [Push m])"

text \<open>The credential of a provider, the variables that belong to a provider, the
  name prefix of its models, and all the variables the selector reads.\<close>

definition credential :: "environment \<Rightarrow> string \<Rightarrow> string" where
  "credential env p =
    (if p = ''anthropic'' then or_str (getenv env ''ANTHROPIC_AUTH_TOKEN'') (getenv env ''ANTHROPIC_API_KEY'')
     else if p = ''openai'' then getenv env ''OPENAI_API_KEY''
     else if p = ''gemini'' then or_str (getenv env ''GEMINI_API_KEY'') (getenv env ''GOOGLE_API_KEY'')
     else [])"

definition provider_vars :: "string \<Rightarrow> string list" where
  "provider_vars p =
    (if p = ''anthropic'' then [''ANTHROPIC_AUTH_TOKEN'', ''ANTHROPIC_API_KEY'', ''ANTHROPIC_BASE_URL'']
     else if p = ''openai'' then [''OPENAI_API_KEY'', ''OPENAI_BASE_URL'']
     else if p = ''gemini'' then [''GEMINI_API_KEY'', ''GOOGLE_API_KEY'']
     else [])"

definition model_prefix :: "string \<Rightarrow> string" where
  "model_prefix p =
    (if p = ''anthropic'' then ''claude'' else if p = ''openai'' then ''gpt'' else ''gemini'')"

definition selector_vars :: "string list" where
  "selector_vars = provider_vars ''anthropic'' @ provider_vars ''openai'' @ provider_vars ''gemini''"

definition agree_on :: "string list \<Rightarrow> environment \<Rightarrow> environment \<Rightarrow> bool" where
  "agree_on vars env env' = list_all (\<lambda>v. env v = env' v) vars"

text \<open>The request that goes to the resolved provider, and the path of the text field in
  the body of its response (\<open>content[0].text\<close>, \<open>choices[0].message.content\<close>,
  \<open>candidates[0].content.parts[0].text\<close>).\<close>

definition provider_request :: "ProviderConfig \<Rightarrow> string \<Rightarrow> int \<Rightarrow> request" where
  "provider_request pc prompt timeout_ms =
    (if pc_provider pc = ''anthropic'' then anthropic_request pc prompt timeout_ms
     else if pc_provider pc = ''openai'' then openai_request pc prompt timeout_ms
     else gemini_request pc prompt timeout_ms)"

definition response_text :: "string \<Rightarrow> json \<Rightarrow> json option" where
  "response_text p data =
    (if p = ''anthropic'' then
       get_prop (get_idx0 (get_prop (Some data) ''content'')) ''text''
     else if p = ''openai'' then
       get_prop (get_prop (get_idx0 (get_prop (Some data) ''choices'')) ''message'') ''content''
     else
       get_prop (get_idx0 (get_prop (get_prop (get_idx0 (get_prop (Some data) ''candidates''))
                                       ''content'') ''parts'')) ''text'')"

text \<open>What the client of the resolved provider returns for the assessment prompt,
  \<open>None\<close> when no provider resolves: an intermediate step of the proofs about the
  assessor.\<close>

definition provider_answer ::
  "runtime \<Rightarrow> environment \<Rightarrow> fetch \<Rightarrow> string list \<Rightarrow> SmartContinueConfig \<Rightarrow> (exn + string) option" where
  "provider_answer r env fetch recentTexts config =
    (case detectProvider env config of
       None \<Rightarrow> None
     | Some pc \<Rightarrow>
         Some ((if pc_provider pc = ''anthropic'' then callAnthropic
                else if pc_provider pc = ''openai'' then callOpenAI
                else callGemini)
               r fetch pc (assessment_prompt recentTexts) (timeoutMs config)))"

text \<open>The two paths \<open>loadCheckpointConfig\<close> builds.\<close>

definition pointer_path :: "string \<Rightarrow> string list" where
  "pointer_path cwd = [cwd, ''.checkpoints'', ''current'']"

definition thread_path :: "string \<Rightarrow> string \<Rightarrow> string list" where
  "thread_path cwd threadId = [cwd, ''.checkpoints'', ''threads'', threadId, ''thread.json'']"

section \<open>Concrete inputs\<close>

definition ascii_space :: "char \<Rightarrow> bool" where
  "ascii_space c = (c \<in> set [CHR '' '', CHR 0x09, CHR 0x0A, CHR 0x0B, CHR 0x0C, CHR 0x0D])"

definition ascii_upper :: "char \<Rightarrow> char" where
  "ascii_upper c =
    (case map_of (zip ''abcdefghijklmnopqrstuvwxyz'' ''ABCDEFGHIJKLMNOPQRSTUVWXYZ'') c of
       Some u \<Rightarrow> u
     | None \<Rightarrow> c)"

definition ascii_runtime :: runtime where
  "ascii_runtime =
    \<lparr> trim = (\<lambda>s. rev (dropWhile ascii_space (rev (dropWhile ascii_space s)))),
      toUpperCase = map ascii_upper \<rparr>"

definition no_network :: "nat \<Rightarrow> fetch" where
  "no_network k req = Inl (Error ''fetch failed'')"

definition quiet_world :: world where
  "quiet_world =
    \<lparr> rt = ascii_runtime, process_env = Map.empty, claudeEnvVars = None, net = no_network,
      nextMessage = (\<lambda>k. if k = 0 then Some ''fix the build'' else None),
      isAborted = (\<lambda>i. False), parseSpecialCommand = (\<lambda>m. ''none'') \<rparr>"

definition streak_two :: driver where
  "streak_two = initial_driver\<lparr>autoContinueCount := 2, thinking := True, nextMessageCalls := 1\<rparr>"

definition streak_three :: driver where
  "streak_three = initial_driver\<lparr>autoContinueCount := 3, thinking := True, nextMessageCalls := 1\<rparr>"

definition marked_driver :: driver where
  "marked_driver =
    initial_driver\<lparr>recentAssistantTexts := [''done [CHECKPOINT_COMPLETE]''], thinking := True,
      nextMessageCalls := 1\<rparr>"

definition cfg_openai :: SmartContinueConfig where
  "cfg_openai = DEFAULT_SMART_CONTINUE\<lparr>provider := Some ''openai''\<rparr>"

definition env_anthropic_only :: environment where
  "env_anthropic_only = [''ANTHROPIC_API_KEY'' \<mapsto> ''sk-ant'']"

definition env_openai_only :: environment where
  "env_openai_only = [''OPENAI_API_KEY'' \<mapsto> ''sk-oai'']"

definition pc_anthropic_auto :: ProviderConfig where
  "pc_anthropic_auto =
    \<lparr> pc_provider = ''anthropic'', apiKey = ''sk-ant'', baseUrl = ''https://api.anthropic.com'',
      pc_model = ''claude-haiku-4-5-20251001'' \<rparr>"

definition pc_openai_explicit :: ProviderConfig where
  "pc_openai_explicit =
    \<lparr> pc_provider = ''openai'', apiKey = ''sk-oai'', baseUrl = ''https://api.openai.com'',
      pc_model = ''claude-haiku-4-5-20251001'' \<rparr>"

definition done_text :: string where
  "done_text = '' done'' @ [CHR 0x0A]"

definition done_response :: response where
  "done_response =
    \<lparr> ok = True, status = 200,
      json_body = Inr (JObj [(''content'', JArr [JObj [(''type'', JStr ''text''),
                                                       (''text'', JStr done_text)]])]) \<rparr>"

definition not_done_response :: response where
  "not_done_response =
    \<lparr> ok = True, status = 200,
      json_body = Inr (JObj [(''content'', JArr [JObj [(''type'', JStr ''text''),
                                                       (''text'', JStr ''Not_done'')]])]) \<rparr>"

definition cfg_negative :: SmartContinueConfig where
  "cfg_negative = DEFAULT_SMART_CONTINUE\<lparr>bufferSize := - 1\<rparr>"

definition working_msg :: SDKMessage where
  "working_msg = AssistantMsg (Some [Block ''text'' (Some ''working on it'') None])"

definition full_driver :: driver where
  "full_driver = initial_driver\<lparr>recentAssistantTexts := [''a'', ''b'', ''c'', ''d'', ''e''],
     thinking := True, nextMessageCalls := 1\<rparr>"

definition started_driver :: driver where
  "started_driver =
    \<lparr> autoContinueCount = 0, smartContinueCount = 0, recentAssistantTexts = [],
      isCompactCommand = False, thinking = True,
      effects = [NextMessage, Push ''fix the build'', OnThinkingChange True],
      nextMessageCalls = 1, assessCalls = 0 \<rparr>"

definition pointer_text :: string where
  "pointer_text = '' t1'' @ [CHR 0x0A]"

definition fs_pointer_only :: filesystem where
  "fs_pointer_only path =
    (if path = pointer_path ''/w'' then File pointer_text else Missing)"

definition fs_with_thread :: filesystem where
  "fs_with_thread path =
    (if path = pointer_path ''/w'' then File pointer_text
     else if path = thread_path ''/w'' ''t1'' then File ''{}''
     else Missing)"

definition parse_empty_object :: "string \<Rightarrow> exn + json" where
  "parse_empty_object txt = Inr (JObj [])"

definition parse_fails :: "string \<Rightarrow> exn + json" where
  "parse_fails txt = Inl (Error ''SyntaxError'')"

lemma startsWith_prefix: "startsWith s p \<longleftrightarrow> prefix p s"
  by (metis startsWith_def append_eq_conv_conj prefix_def)

section \<open>The driver on a result message\<close>

lemma pre_result [simp]:
  "handle_init (ResultMsg sub n) s = s"
  "buffer_text cfg (ResultMsg sub n) s = s"
  by (simp_all add: handle_init_def buffer_text_def extractAssistantText_def)

lemma loop_body_result:
  "loop_body W cfg (ResultMsg sub n) s =
    handle_result W cfg sub n (emit (OnMessage (ResultMsg sub n)) s)"
  by (simp add: loop_body_def)

lemma fires_emit [simp]: "auto_continue_fires sub n (emit e s) = auto_continue_fires sub n s"
  by (simp add: auto_continue_fires_def emit_def)

lemma handle_result_fires:
  "auto_continue_fires sub n s \<Longrightarrow>
   handle_result W cfg sub n s =
     (Next, updateThinking True (emit (Push AUTO_CONTINUE_MESSAGE)
        ((updateThinking False s)\<lparr>autoContinueCount := autoContinueCount s + 1\<rparr>)))"
  by (simp add: handle_result_def auto_continue_fires_def MAX_AUTO_CONTINUE_def
        updateThinking_def emit_def Let_def)

lemma turn_complete_fields [simp]:
  "autoContinueCount (snd (turn_complete W s)) = autoContinueCount s"
  "smartContinueCount (snd (turn_complete W s)) = smartContinueCount s"
  "recentAssistantTexts (snd (turn_complete W s)) = recentAssistantTexts s"
  "assessCalls (snd (turn_complete W s)) = assessCalls s"
  "thinking (snd (turn_complete W s)) = thinking s"
  "nextMessageCalls (snd (turn_complete W s)) = nextMessageCalls s + 1"
  "isCompactCommand (snd (turn_complete W s)) = False"
  "effects (snd (turn_complete W s)) = effects s @ completion_effects W s"
  "fst (turn_complete W s) =
    (case nextMessage W (nextMessageCalls s) of None \<Rightarrow> Return | Some m \<Rightarrow> Next)"
  by (simp_all add: turn_complete_def emit_def Let_def completion_effects_def split: option.splits)

lemma handle_result_not_fires:
  "\<not> auto_continue_fires sub n s \<Longrightarrow>
   autoContinueCount (snd (handle_result W cfg sub n s)) = 0"
  by (simp add: handle_result_def auto_continue_fires_def MAX_AUTO_CONTINUE_def
        updateThinking_def emit_def Let_def split: option.splits sum.splits)

lemma loop_body_fires_counter:
  assumes "auto_continue_fires sub n s"
  shows "autoContinueCount (snd (loop_body W cfg (ResultMsg sub n) s)) = autoContinueCount s + 1"
proof -
  have "loop_body W cfg (ResultMsg sub n) s =
     (Next, updateThinking True (emit (Push AUTO_CONTINUE_MESSAGE)
        ((updateThinking False (emit (OnMessage (ResultMsg sub n)) s))
           \<lparr>autoContinueCount := autoContinueCount (emit (OnMessage (ResultMsg sub n)) s) + 1\<rparr>)))"
    using assms by (simp add: loop_body_result handle_result_fires)
  then show ?thesis
    by (simp add: updateThinking_def emit_def)
qed

lemma loop_body_counter_other:
  "(\<And>sub n. m \<noteq> ResultMsg sub n) \<Longrightarrow>
   autoContinueCount (snd (loop_body W cfg m s)) = autoContinueCount s"
  by (cases m)
     (auto simp add: loop_body_def buffer_text_def handle_init_def emit_def updateThinking_def
        Let_def split: option.splits prod.splits)

text \<open>
  C2. On a result message for which the structural gate does not fire, the streak counter
  is zero afterwards; a result with \<open>num_turns\<close> above 1 is such a message, whatever the
  counter was. No other step of the loop lowers the counter: if a message leaves it
  smaller than it was, the message is a result on which the gate did not fire, and the
  counter is zero.
\<close>

theorem auto_continue_reset:
  "(\<not> auto_continue_fires sub n s \<longrightarrow>
      autoContinueCount (snd (loop_body W cfg (ResultMsg sub n) s)) = 0)
   \<and> (1 < n \<longrightarrow> autoContinueCount (snd (loop_body W cfg (ResultMsg sub n) s)) = 0)
   \<and> (autoContinueCount (snd (loop_body W cfg m s)) < autoContinueCount s \<longrightarrow>
        autoContinueCount (snd (loop_body W cfg m s)) = 0
        \<and> (\<exists>sub' n'. m = ResultMsg sub' n' \<and> \<not> auto_continue_fires sub' n' s))"
proof (intro conjI impI)
  assume "\<not> auto_continue_fires sub n s"
  then show "autoContinueCount (snd (loop_body W cfg (ResultMsg sub n) s)) = 0"
    by (simp add: loop_body_result handle_result_not_fires)
next
  assume "1 < n"
  then have "\<not> auto_continue_fires sub n s"
    by (simp add: auto_continue_fires_def)
  then show "autoContinueCount (snd (loop_body W cfg (ResultMsg sub n) s)) = 0"
    by (simp add: loop_body_result handle_result_not_fires)
next
  assume less: "autoContinueCount (snd (loop_body W cfg m s)) < autoContinueCount s"
  then obtain sub' n' where m: "m = ResultMsg sub' n'"
    using loop_body_counter_other [of m W cfg s] by force
  have nf: "\<not> auto_continue_fires sub' n' s"
  proof
    assume "auto_continue_fires sub' n' s"
    then have "autoContinueCount (snd (loop_body W cfg m s)) = autoContinueCount s + 1"
      unfolding m by (rule loop_body_fires_counter)
    with less show False by simp
  qed
  then show "autoContinueCount (snd (loop_body W cfg m s)) = 0"
    unfolding m by (simp add: loop_body_result handle_result_not_fires)
  from m nf show "\<exists>sub' n'. m = ResultMsg sub' n' \<and> \<not> auto_continue_fires sub' n' s"
    by blast
qed

theorem auto_continue_reset_witness:
  "\<not> auto_continue_fires ''success'' 5 streak_two \<and> (1::int) < 5
   \<and> autoContinueCount (snd (loop_body quiet_world None (ResultMsg ''success'' 5) streak_two))
       < autoContinueCount streak_two
   \<and> autoContinueCount (snd (loop_body quiet_world None (ResultMsg ''success'' 5) streak_two)) = 0"
  using auto_continue_reset [of "''success''" 5 streak_two quiet_world None "ResultMsg ''success'' 5"]
  by (simp add: auto_continue_fires_def streak_two_def initial_driver_def)

section \<open>The completion marker\<close>

lemma includes_str_sublist: "includes_str t m \<longleftrightarrow> sublist m t"
  by (induction t) (simp_all add: sublist_Cons_right startsWith_prefix)

lemma handle_result_marker:
  assumes "\<not> auto_continue_fires sub n s"
    and "list_ex (\<lambda>t. includes_str t (completionMarker c)) (recentAssistantTexts s)"
  shows "handle_result W (Some c) sub n s =
           turn_complete W ((updateThinking False s)\<lparr>autoContinueCount := 0\<rparr>)"
proof -
  have g1: "\<not> (sub = ''success'' \<and> num_turns_le \<and> \<not> isCompactCommand (updateThinking False s)
        \<and> autoContinueCount (updateThinking False s) < MAX_AUTO_CONTINUE)"
    if "num_turns_le = (n \<le> 1)" for num_turns_le
    using assms(1) that
    by (simp add: auto_continue_fires_def MAX_AUTO_CONTINUE_def updateThinking_def emit_def)
  have ex: "list_ex (\<lambda>t. includes_str t (completionMarker c))
              (recentAssistantTexts (updateThinking False s))"
    using assms(2) by (simp add: updateThinking_def emit_def)
  show ?thesis
    unfolding handle_result_def Let_def
    by (simp add: g1 [OF refl] ex)
qed

lemma marker_in_text:
  "sublist (completionMarker DEFAULT_SMART_CONTINUE) ''done [CHECKPOINT_COMPLETE]''"
  unfolding includes_str_sublist [symmetric]
  by (simp add: DEFAULT_SMART_CONTINUE_def startsWith_def)

text \<open>
  C3. Take a result message on which the structural gate does not fire, so that control
  reaches the smart-continue gate. If some entry of the buffer contains the completion
  marker as a substring, the assessor is not called for this message (the number of its
  calls is unchanged and no call is among the effects of the step), and the turn is
  completed: the message is forwarded, the thinking indicator cleared, a pending
  compaction reported, \<open>onReady\<close> called and the next message of the caller awaited,
  which is pushed, or ends the session when there is none.
\<close>

theorem marker_skips_assessor:
  assumes "\<not> auto_continue_fires sub n s"
    and "t \<in> set (recentAssistantTexts s)"
    and "sublist (completionMarker c) t"
  shows "(case loop_body W (Some c) (ResultMsg sub n) s of (ctl, s') \<Rightarrow>
           assessCalls s' = assessCalls s
           \<and> effects s' = effects s @ [OnMessage (ResultMsg sub n)]
                 @ (if thinking s then [OnThinkingChange False] else [])
                 @ completion_effects W s
           \<and> (\<forall>x. Assess x \<notin> set (drop (length (effects s)) (effects s')))
           \<and> ctl = (case nextMessage W (nextMessageCalls s) of None \<Rightarrow> Return | Some m \<Rightarrow> Next)
           \<and> smartContinueCount s' = smartContinueCount s)"
proof -
  let ?m = "ResultMsg sub n"
  let ?s1 = "emit (OnMessage ?m) s"
  have ex: "list_ex (\<lambda>t. includes_str t (completionMarker c)) (recentAssistantTexts ?s1)"
    using assms(2,3) by (auto simp: list_ex_iff includes_str_sublist emit_def)
  have "loop_body W (Some c) ?m s =
          turn_complete W ((updateThinking False ?s1)\<lparr>autoContinueCount := 0\<rparr>)"
    using assms(1) ex by (simp add: loop_body_result handle_result_marker)
  then show ?thesis
    by (simp add: case_prod_beta updateThinking_def emit_def completion_effects_def
          split: option.splits)
qed

theorem marker_skips_assessor_witness:
  "\<not> auto_continue_fires ''success'' 5 marked_driver
   \<and> ''done [CHECKPOINT_COMPLETE]'' \<in> set (recentAssistantTexts marked_driver)
   \<and> sublist (completionMarker DEFAULT_SMART_CONTINUE) ''done [CHECKPOINT_COMPLETE]''
   \<and> effects (snd (loop_body quiet_world (Some DEFAULT_SMART_CONTINUE) (ResultMsg ''success'' 5)
                      marked_driver))
       = [OnMessage (ResultMsg ''success'' 5), OnThinkingChange False, OnReady, NextMessage, End]
   \<and> fst (loop_body quiet_world (Some DEFAULT_SMART_CONTINUE) (ResultMsg ''success'' 5)
             marked_driver) = Return"
proof -
  have a: "\<not> auto_continue_fires ''success'' 5 marked_driver"
    by (simp add: auto_continue_fires_def)
  have b: "''done [CHECKPOINT_COMPLETE]'' \<in> set (recentAssistantTexts marked_driver)"
    by (simp add: marked_driver_def)
  show ?thesis
    using marker_skips_assessor [OF a b marker_in_text, of quiet_world] a b marker_in_text
    by (simp add: case_prod_beta marked_driver_def initial_driver_def completion_effects_def
          quiet_world_def)
qed

section \<open>The provider selector\<close>

lemma getenv_agree: "env v = env' v \<Longrightarrow> getenv env v = getenv env' v"
  by (simp add: getenv_def)

lemma or_str_Nil [simp]: "or_str a [] = a"
  by (simp add: or_str_def)

lemma default_model_simps [simp]:
  "default_model ''anthropic'' = ''claude-haiku-4-5-20251001''"
  "default_model ''openai'' = ''gpt-4o-mini''"
  "default_model ''gemini'' = ''gemini-2.0-flash''"
  by (simp_all add: default_model_def DEFAULT_MODELS_def)

lemma credential_simps:
  "or_str (getenv env ''ANTHROPIC_AUTH_TOKEN'') (getenv env ''ANTHROPIC_API_KEY'') = credential env ''anthropic''"
  "getenv env ''OPENAI_API_KEY'' = credential env ''openai''"
  "or_str (getenv env ''GEMINI_API_KEY'') (getenv env ''GOOGLE_API_KEY'') = credential env ''gemini''"
  by (simp_all add: credential_def)

lemma auto_detect_provider [simp]: "auto_detect env (c\<lparr>provider := x\<rparr>) = auto_detect env c"
  by (simp add: auto_detect_def Let_def split del: if_split cong: if_cong)

lemma auto_detect_anthropic:
  "credential env ''anthropic'' \<noteq> [] \<Longrightarrow>
   auto_detect env c =
     Some \<lparr> pc_provider = ''anthropic'', apiKey = credential env ''anthropic'',
            baseUrl = or_str (getenv env ''ANTHROPIC_BASE_URL'') ''https://api.anthropic.com'',
            pc_model = (if startsWith (model c) ''claude'' then model c
                        else default_model ''anthropic'') \<rparr>"
  by (simp add: auto_detect_def Let_def credential_simps split del: if_split)

lemma auto_detect_openai:
  "credential env ''anthropic'' = [] \<Longrightarrow> credential env ''openai'' \<noteq> [] \<Longrightarrow>
   auto_detect env c =
     Some \<lparr> pc_provider = ''openai'', apiKey = credential env ''openai'',
            baseUrl = or_str (getenv env ''OPENAI_BASE_URL'') ''https://api.openai.com'',
            pc_model = (if startsWith (model c) ''gpt'' then model c
                        else default_model ''openai'') \<rparr>"
  by (simp add: auto_detect_def Let_def credential_simps split del: if_split)

lemma auto_detect_gemini:
  "credential env ''anthropic'' = [] \<Longrightarrow> credential env ''openai'' = [] \<Longrightarrow>
   credential env ''gemini'' \<noteq> [] \<Longrightarrow>
   auto_detect env c =
     Some \<lparr> pc_provider = ''gemini'', apiKey = credential env ''gemini'',
            baseUrl = ''https://generativelanguage.googleapis.com'',
            pc_model = (if startsWith (model c) ''gemini'' then model c
                        else default_model ''gemini'') \<rparr>"
  by (simp add: auto_detect_def Let_def credential_simps split del: if_split)

lemma auto_detect_none:
  "credential env ''anthropic'' = [] \<Longrightarrow> credential env ''openai'' = [] \<Longrightarrow>
   credential env ''gemini'' = [] \<Longrightarrow> auto_detect env c = None"
  by (simp add: auto_detect_def Let_def credential_simps split del: if_split)

lemma auto_detect_None:
  "(auto_detect env c = None) =
    (credential env ''anthropic'' = [] \<and> credential env ''openai'' = [] \<and> credential env ''gemini'' = [])"
proof (cases "credential env ''anthropic'' = []")
  case False
  then show ?thesis by (simp add: auto_detect_anthropic)
next
  case a: True
  show ?thesis
  proof (cases "credential env ''openai'' = []")
    case False
    with a show ?thesis by (simp add: auto_detect_openai)
  next
    case o: True
    show ?thesis
    proof (cases "credential env ''gemini'' = []")
      case False
      with a o show ?thesis by (simp add: auto_detect_gemini)
    next
      case True
      with a o show ?thesis by (simp add: auto_detect_none)
    qed
  qed
qed

lemma auto_detect_Some:
  assumes "auto_detect env c = Some pc"
  shows "(pc_provider pc = ''anthropic'' \<or> pc_provider pc = ''openai'' \<or> pc_provider pc = ''gemini'')
     \<and> credential env (pc_provider pc) \<noteq> []
     \<and> pc_model pc = (if startsWith (model c) (model_prefix (pc_provider pc)) then model c
                       else default_model (pc_provider pc))"
proof -
  consider (a) "credential env ''anthropic'' \<noteq> []"
    | (o) "credential env ''anthropic'' = []" "credential env ''openai'' \<noteq> []"
    | (g) "credential env ''anthropic'' = []" "credential env ''openai'' = []" "credential env ''gemini'' \<noteq> []"
    | (n) "credential env ''anthropic'' = []" "credential env ''openai'' = []" "credential env ''gemini'' = []"
    by blast
  then show ?thesis
  proof cases
    case a
    from assms [unfolded auto_detect_anthropic [OF a]]
    have pp: "pc_provider pc = ''anthropic''"
      and pm: "pc_model pc = (if startsWith (model c) ''claude'' then model c
                              else default_model ''anthropic'')"
      by auto
    show ?thesis unfolding pp pm model_prefix_def using a by simp
  next
    case o
    from assms [unfolded auto_detect_openai [OF o]]
    have pp: "pc_provider pc = ''openai''"
      and pm: "pc_model pc = (if startsWith (model c) ''gpt'' then model c
                              else default_model ''openai'')"
      by auto
    show ?thesis unfolding pp pm model_prefix_def using o by simp
  next
    case g
    from assms [unfolded auto_detect_gemini [OF g]]
    have pp: "pc_provider pc = ''gemini''"
      and pm: "pc_model pc = (if startsWith (model c) ''gemini'' then model c
                              else default_model ''gemini'')"
      by auto
    show ?thesis unfolding pp pm model_prefix_def using g by simp
  next
    case n
    with assms show ?thesis by (simp add: auto_detect_none)
  qed
qed

lemma detectProvider_explicit_anthropic:
  "provider c = Some ''anthropic'' \<Longrightarrow> credential env ''anthropic'' \<noteq> [] \<Longrightarrow>
   detectProvider env c =
     Some \<lparr> pc_provider = ''anthropic'', apiKey = credential env ''anthropic'',
            baseUrl = or_str (getenv env ''ANTHROPIC_BASE_URL'') ''https://api.anthropic.com'',
            pc_model = or_str (model c) (default_model ''anthropic'') \<rparr>"
  by (simp add: detectProvider_def Let_def credential_simps split del: if_split)

lemma detectProvider_explicit_openai:
  "provider c = Some ''openai'' \<Longrightarrow> credential env ''openai'' \<noteq> [] \<Longrightarrow>
   detectProvider env c =
     Some \<lparr> pc_provider = ''openai'', apiKey = credential env ''openai'',
            baseUrl = or_str (getenv env ''OPENAI_BASE_URL'') ''https://api.openai.com'',
            pc_model = or_str (model c) (default_model ''openai'') \<rparr>"
  by (simp add: detectProvider_def Let_def credential_simps split del: if_split)

lemma detectProvider_explicit_gemini:
  "provider c = Some ''gemini'' \<Longrightarrow> credential env ''gemini'' \<noteq> [] \<Longrightarrow>
   detectProvider env c =
     Some \<lparr> pc_provider = ''gemini'', apiKey = credential env ''gemini'',
            baseUrl = ''https://generativelanguage.googleapis.com'',
            pc_model = or_str (model c) (default_model ''gemini'') \<rparr>"
  by (simp add: detectProvider_def Let_def credential_simps split del: if_split)

lemma detectProvider_fallthrough:
  assumes "\<not> (provider c = Some ''anthropic'' \<and> credential env ''anthropic'' \<noteq> [])"
    and "\<not> (provider c = Some ''openai'' \<and> credential env ''openai'' \<noteq> [])"
    and "\<not> (provider c = Some ''gemini'' \<and> credential env ''gemini'' \<noteq> [])"
  shows "detectProvider env c = auto_detect env c"
  unfolding detectProvider_def Let_def or_str_Nil credential_simps
  by (simp only: assms if_False)

lemma detectProvider_unset: "provider c = None \<Longrightarrow> detectProvider env c = auto_detect env c"
  by (rule detectProvider_fallthrough) simp_all

lemma credential_other:
  "p \<noteq> ''anthropic'' \<Longrightarrow> p \<noteq> ''openai'' \<Longrightarrow> p \<noteq> ''gemini'' \<Longrightarrow> credential env p = []"
  by (simp add: credential_def)

lemma detectProvider_miss:
  assumes "provider c = Some p" and "credential env p = []"
  shows "detectProvider env c = auto_detect env c"
  using assms by (intro detectProvider_fallthrough) auto

lemma default_model_prefix:
  "p = ''anthropic'' \<or> p = ''openai'' \<or> p = ''gemini'' \<Longrightarrow>
   startsWith (default_model p) (model_prefix p)"
  by (auto simp add: startsWith_def model_prefix_def)

lemma detectProvider_cases:
  obtains (hit) p where "provider c = Some p" "p = ''anthropic'' \<or> p = ''openai'' \<or> p = ''gemini''"
      "credential env p \<noteq> []"
      "detectProvider env c =
         Some \<lparr> pc_provider = p, apiKey = credential env p,
                baseUrl = (if p = ''anthropic''
                           then or_str (getenv env ''ANTHROPIC_BASE_URL'') ''https://api.anthropic.com''
                           else if p = ''openai''
                           then or_str (getenv env ''OPENAI_BASE_URL'') ''https://api.openai.com''
                           else ''https://generativelanguage.googleapis.com''),
                pc_model = or_str (model c) (default_model p) \<rparr>"
    | (miss) "\<And>p. provider c = Some p \<Longrightarrow> credential env p = []"
      "detectProvider env c = auto_detect env c"
proof (cases "provider c")
  case None
  then show ?thesis by (intro miss) (simp_all add: detectProvider_unset)
next
  case (Some p)
  show ?thesis
  proof (cases "credential env p = []")
    case True
    with Some show ?thesis by (intro miss) (simp_all add: detectProvider_miss)
  next
    case False
    then have names: "p = ''anthropic'' \<or> p = ''openai'' \<or> p = ''gemini''"
      using credential_other by blast
    from names show ?thesis
    proof (elim disjE)
      assume p: "p = ''anthropic''"
      show ?thesis
        using Some False detectProvider_explicit_anthropic [of c env] unfolding p
        by (intro hit [of "''anthropic''"]) simp_all
    next
      assume p: "p = ''openai''"
      show ?thesis
        using Some False detectProvider_explicit_openai [of c env] unfolding p
        by (intro hit [of "''openai''"]) simp_all
    next
      assume p: "p = ''gemini''"
      show ?thesis
        using Some False detectProvider_explicit_gemini [of c env] unfolding p
        by (intro hit [of "''gemini''"]) simp_all
    qed
  qed
qed

lemma detectProvider_names:
  assumes "detectProvider env c = Some pc"
  shows "pc_provider pc = ''anthropic'' \<or> pc_provider pc = ''openai'' \<or> pc_provider pc = ''gemini''"
proof (cases rule: detectProvider_cases [of c env])
  case (hit p)
  with assms show ?thesis by auto
next
  case miss
  with assms auto_detect_Some [of env c pc] show ?thesis by simp
qed

lemma agree_on_selector_vars:
  assumes "agree_on selector_vars env env'"
  shows "getenv env ''ANTHROPIC_AUTH_TOKEN'' = getenv env' ''ANTHROPIC_AUTH_TOKEN''"
    "getenv env ''ANTHROPIC_API_KEY'' = getenv env' ''ANTHROPIC_API_KEY''"
    "getenv env ''ANTHROPIC_BASE_URL'' = getenv env' ''ANTHROPIC_BASE_URL''"
    "getenv env ''OPENAI_API_KEY'' = getenv env' ''OPENAI_API_KEY''"
    "getenv env ''OPENAI_BASE_URL'' = getenv env' ''OPENAI_BASE_URL''"
    "getenv env ''GEMINI_API_KEY'' = getenv env' ''GEMINI_API_KEY''"
    "getenv env ''GOOGLE_API_KEY'' = getenv env' ''GOOGLE_API_KEY''"
  using assms by (simp_all add: agree_on_def selector_vars_def provider_vars_def getenv_def)

text \<open>
  C9. The selector is a function of the configuration and of the seven environment
  variables it reads, and of nothing else: two environments that agree on these variables
  give the same result for the same configuration, be it the same provider, key, base URL
  and model, or \<open>null\<close> both times. The selector does not write to the environment, so a
  second call with the same configuration sees the same variables.
\<close>

theorem selector_deterministic:
  assumes "agree_on selector_vars env env'"
  shows "detectProvider env c = detectProvider env' c"
  unfolding detectProvider_def auto_detect_def agree_on_selector_vars [OF assms]
  by (rule refl)

theorem selector_deterministic_witness:
  "agree_on selector_vars env_anthropic_only (env_anthropic_only(''DISABLE_AUTOUPDATER'' \<mapsto> ''1''))
   \<and> detectProvider env_anthropic_only cfg_openai
       = detectProvider (env_anthropic_only(''DISABLE_AUTOUPDATER'' \<mapsto> ''1'')) cfg_openai"
proof -
  have a: "agree_on selector_vars env_anthropic_only
             (env_anthropic_only(''DISABLE_AUTOUPDATER'' \<mapsto> ''1''))"
    by (simp add: agree_on_def selector_vars_def provider_vars_def)
  from a selector_deterministic [OF a] show ?thesis by simp
qed

lemma credential_anthropic_only [simp]:
  "credential env_anthropic_only ''anthropic'' = ''sk-ant''"
  "credential env_anthropic_only ''openai'' = []"
  "credential env_anthropic_only ''gemini'' = []"
  by (simp_all add: credential_def env_anthropic_only_def getenv_def or_str_def)

lemma credential_openai_only [simp]:
  "credential env_openai_only ''anthropic'' = []"
  "credential env_openai_only ''openai'' = ''sk-oai''"
  "credential env_openai_only ''gemini'' = []"
  by (simp_all add: credential_def env_openai_only_def getenv_def or_str_def)

lemma cfg_openai_fields [simp]:
  "provider cfg_openai = Some ''openai''"
  "model cfg_openai = ''claude-haiku-4-5-20251001''"
  by (simp_all add: cfg_openai_def DEFAULT_SMART_CONTINUE_def)

lemma detect_anthropic_only:
  "detectProvider env_anthropic_only cfg_openai
     = Some \<lparr> pc_provider = ''anthropic'', apiKey = ''sk-ant'',
              baseUrl = ''https://api.anthropic.com'',
              pc_model = ''claude-haiku-4-5-20251001'' \<rparr>"
proof -
  have "detectProvider env_anthropic_only cfg_openai = auto_detect env_anthropic_only cfg_openai"
    by (rule detectProvider_miss [of _ "''openai''"]) simp_all
  also have "\<dots> = Some \<lparr> pc_provider = ''anthropic'', apiKey = ''sk-ant'',
              baseUrl = ''https://api.anthropic.com'',
              pc_model = ''claude-haiku-4-5-20251001'' \<rparr>"
    by (simp add: auto_detect_anthropic startsWith_def)
       (simp add: env_anthropic_only_def getenv_def or_str_def)
  finally show ?thesis .
qed

lemma detect_openai_only:
  "detectProvider env_openai_only cfg_openai
     = Some \<lparr> pc_provider = ''openai'', apiKey = ''sk-oai'',
              baseUrl = ''https://api.openai.com'',
              pc_model = ''claude-haiku-4-5-20251001'' \<rparr>"
  by (simp add: detectProvider_explicit_openai)
     (simp add: env_openai_only_def getenv_def or_str_def)

lemma agree_on_provider_vars:
  assumes "agree_on (provider_vars p) env env'"
  shows "credential env' p = credential env p"
    and "p = ''anthropic'' \<Longrightarrow> getenv env' ''ANTHROPIC_BASE_URL'' = getenv env ''ANTHROPIC_BASE_URL''"
    and "p = ''openai'' \<Longrightarrow> getenv env' ''OPENAI_BASE_URL'' = getenv env ''OPENAI_BASE_URL''"
  using assms
  by (auto simp add: agree_on_def provider_vars_def credential_def getenv_def split: if_splits)

lemma detectProvider_explicit_agree:
  assumes "provider c = Some p" and "p = ''anthropic'' \<or> p = ''openai'' \<or> p = ''gemini''"
    and "credential env p \<noteq> []" and "agree_on (provider_vars p) env env'"
  shows "detectProvider env' c = detectProvider env c"
proof -
  note ag = agree_on_provider_vars [OF assms(4)]
  from assms(2) show ?thesis
  proof (elim disjE)
    assume p: "p = ''anthropic''"
    with assms(1,3) ag show ?thesis
      by (simp add: detectProvider_explicit_anthropic)
  next
    assume p: "p = ''openai''"
    with assms(1,3) ag show ?thesis
      by (simp add: detectProvider_explicit_openai)
  next
    assume p: "p = ''gemini''"
    with assms(1,3) ag show ?thesis
      by (simp add: detectProvider_explicit_gemini)
  qed
qed

lemma detectProvider_None:
  "(detectProvider env c = None) =
     (credential env ''anthropic'' = [] \<and> credential env ''openai'' = []
      \<and> credential env ''gemini'' = [])"
proof (cases rule: detectProvider_cases [of c env])
  case (hit p)
  then show ?thesis by auto
next
  case miss
  then show ?thesis by (simp add: auto_detect_None)
qed

text \<open>
  C4, as the code has it. Let the provider field be set to \<open>p\<close>. If \<open>p\<close> is one of the
  three providers and its credential is present, the selector returns \<open>p\<close> with that
  credential, and reads only the variables of \<open>p\<close>: an environment that agrees on them
  gives the same result. If the credential of \<open>p\<close> is absent, the selector goes on to
  auto-detection and returns what it would return with the provider field unset; it
  returns \<open>null\<close> exactly when no provider has a credential.
\<close>

theorem explicit_provider:
  assumes "provider c = Some p"
  shows "((p = ''anthropic'' \<or> p = ''openai'' \<or> p = ''gemini'') \<and> credential env p \<noteq> [] \<longrightarrow>
            map_option pc_provider (detectProvider env c) = Some p
          \<and> map_option apiKey (detectProvider env c) = Some (credential env p)
          \<and> (\<forall>env'. agree_on (provider_vars p) env env' \<longrightarrow>
                 detectProvider env' c = detectProvider env c))
       \<and> (credential env p = [] \<longrightarrow>
            detectProvider env c = detectProvider env (c\<lparr>provider := None\<rparr>))
       \<and> ((detectProvider env c = None) =
            (credential env ''anthropic'' = [] \<and> credential env ''openai'' = []
             \<and> credential env ''gemini'' = []))"
proof (intro conjI impI allI)
  show "(detectProvider env c = None) =
            (credential env ''anthropic'' = [] \<and> credential env ''openai'' = []
             \<and> credential env ''gemini'' = [])"
    by (rule detectProvider_None)
next
  assume "credential env p = []"
  with assms have "detectProvider env c = auto_detect env c"
    by (rule detectProvider_miss)
  moreover have "detectProvider env (c\<lparr>provider := None\<rparr>) = auto_detect env (c\<lparr>provider := None\<rparr>)"
    by (rule detectProvider_unset) simp
  ultimately show "detectProvider env c = detectProvider env (c\<lparr>provider := None\<rparr>)"
    by simp
next
  assume h: "(p = ''anthropic'' \<or> p = ''openai'' \<or> p = ''gemini'') \<and> credential env p \<noteq> []"
  have "detectProvider env c \<noteq> None \<and> map_option pc_provider (detectProvider env c) = Some p
        \<and> map_option apiKey (detectProvider env c) = Some (credential env p)"
  proof (cases rule: detectProvider_cases [of c env])
    case (hit q)
    with assms show ?thesis by simp
  next
    case miss
    with assms h show ?thesis by simp
  qed
  then show "map_option pc_provider (detectProvider env c) = Some p"
    and "map_option apiKey (detectProvider env c) = Some (credential env p)"
    by simp_all
  fix env' assume "agree_on (provider_vars p) env env'"
  with assms h show "detectProvider env' c = detectProvider env c"
    by (intro detectProvider_explicit_agree [of c p]) simp_all
qed

theorem explicit_provider_counterexample:
  "provider cfg_openai = Some ''openai''
   \<and> credential env_anthropic_only ''openai'' = []
   \<and> detectProvider env_anthropic_only cfg_openai
       = Some \<lparr> pc_provider = ''anthropic'', apiKey = ''sk-ant'',
                baseUrl = ''https://api.anthropic.com'',
                pc_model = ''claude-haiku-4-5-20251001'' \<rparr>
   \<and> detectProvider env_anthropic_only cfg_openai \<noteq> None"
  by (simp add: detect_anthropic_only)

theorem explicit_provider_witness:
  "provider cfg_openai = Some ''openai''
   \<and> credential env_openai_only ''openai'' \<noteq> []
   \<and> agree_on (provider_vars ''openai'') env_openai_only (env_openai_only(''GEMINI_API_KEY'' \<mapsto> ''g''))
   \<and> detectProvider (env_openai_only(''GEMINI_API_KEY'' \<mapsto> ''g'')) cfg_openai = Some pc_openai_explicit
   \<and> credential env_anthropic_only ''openai'' = []
   \<and> detectProvider env_anthropic_only cfg_openai
        = detectProvider env_anthropic_only (cfg_openai\<lparr>provider := None\<rparr>)"
proof -
  have p: "provider cfg_openai = Some ''openai''" by simp
  have a: "agree_on (provider_vars ''openai'') env_openai_only
             (env_openai_only(''GEMINI_API_KEY'' \<mapsto> ''g''))"
    by (simp add: agree_on_def provider_vars_def env_openai_only_def)
  show ?thesis
    using explicit_provider [OF p, of env_openai_only] explicit_provider [OF p, of env_anthropic_only] a
    by (simp add: detect_openai_only pc_openai_explicit_def)
qed

text \<open>
  C5, as the code has it. Let the selector resolve to a provider. If that provider is the
  one the provider field names, the model is the configured model whenever that is not
  empty, and the default model of the provider otherwise; no prefix is looked at. If the
  provider was found by auto-detection, the model is the configured model when it starts
  with the prefix of the provider (\<open>claude\<close>, \<open>gpt\<close>, \<open>gemini\<close>) and the default model of
  the provider otherwise, so there it equals the configured model exactly when the prefix
  matches.
\<close>

theorem model_choice:
  assumes "detectProvider env c = Some pc"
  shows "pc_model pc =
          (if provider c = Some (pc_provider pc)
           then or_str (model c) (default_model (pc_provider pc))
           else if startsWith (model c) (model_prefix (pc_provider pc)) then model c
           else default_model (pc_provider pc))
         \<and> (provider c \<noteq> Some (pc_provider pc) \<longrightarrow>
              (pc_model pc = model c) = startsWith (model c) (model_prefix (pc_provider pc)))"
proof (cases rule: detectProvider_cases [of c env])
  case (hit p)
  with assms have "pc_provider pc = p" "pc_model pc = or_str (model c) (default_model p)"
    by auto
  with hit(1) show ?thesis by simp
next
  case miss
  with assms have a: "auto_detect env c = Some pc" by simp
  note s = auto_detect_Some [OF a]
  have ne: "provider c \<noteq> Some (pc_provider pc)"
    using miss(1) s by blast
  have d: "startsWith (default_model (pc_provider pc)) (model_prefix (pc_provider pc))"
    using s by (intro default_model_prefix) simp
  have m: "pc_model pc = (if startsWith (model c) (model_prefix (pc_provider pc)) then model c
                          else default_model (pc_provider pc))"
    using s by simp
  show ?thesis
  proof (cases "startsWith (model c) (model_prefix (pc_provider pc))")
    case True
    with m ne show ?thesis by simp
  next
    case False
    with d have "default_model (pc_provider pc) \<noteq> model c" by auto
    with m ne False show ?thesis by simp
  qed
qed

theorem model_choice_counterexample:
  "detectProvider env_openai_only cfg_openai
       = Some \<lparr> pc_provider = ''openai'', apiKey = ''sk-oai'',
                baseUrl = ''https://api.openai.com'',
                pc_model = model cfg_openai \<rparr>
   \<and> \<not> startsWith (model cfg_openai) (model_prefix ''openai'')
   \<and> model cfg_openai \<noteq> default_model ''openai''"
  by (simp add: detect_openai_only startsWith_def model_prefix_def)

theorem model_choice_witness:
  "detectProvider env_openai_only cfg_openai = Some pc_openai_explicit
   \<and> pc_model pc_openai_explicit = or_str (model cfg_openai) (default_model ''openai'')
   \<and> detectProvider env_anthropic_only cfg_openai = Some pc_anthropic_auto
   \<and> provider cfg_openai \<noteq> Some (pc_provider pc_anthropic_auto)
   \<and> (pc_model pc_anthropic_auto = model cfg_openai)
   \<and> startsWith (model cfg_openai) (model_prefix ''anthropic'')"
proof -
  have o: "detectProvider env_openai_only cfg_openai = Some pc_openai_explicit"
    by (simp add: detect_openai_only pc_openai_explicit_def)
  have a: "detectProvider env_anthropic_only cfg_openai = Some pc_anthropic_auto"
    by (simp add: detect_anthropic_only pc_anthropic_auto_def)
  show ?thesis
    using model_choice [OF o] model_choice [OF a] o a
    by (simp add: pc_openai_explicit_def pc_anthropic_auto_def or_str_def)
qed

section \<open>The completion assessor\<close>

lemma callers_simps [simp]:
  "callers ''anthropic'' = Some callAnthropic"
  "callers ''openai'' = Some callOpenAI"
  "callers ''gemini'' = Some callGemini"
  by (simp_all add: callers_def)

lemma assess_answer:
  "assessTaskCompletion r env fetch texts c =
     Inr (provider_answer r env fetch texts c = Some (Inr ''DONE''))"
proof (cases "detectProvider env c")
  case None
  then show ?thesis
    by (simp add: assessTaskCompletion_def provider_answer_def)
next
  case (Some pc)
  from detectProvider_names [OF Some] show ?thesis
  proof (elim disjE)
    assume "pc_provider pc = ''anthropic''"
    with Some show ?thesis
      by (simp add: assessTaskCompletion_def provider_answer_def split: sum.splits)
  next
    assume "pc_provider pc = ''openai''"
    with Some show ?thesis
      by (simp add: assessTaskCompletion_def provider_answer_def split: sum.splits)
  next
    assume "pc_provider pc = ''gemini''"
    with Some show ?thesis
      by (simp add: assessTaskCompletion_def provider_answer_def split: sum.splits)
  qed
qed

lemma callers_reject:
  "callAnthropic r (\<lambda>req. Inl e) pc prompt t = Inl e"
  "callOpenAI r (\<lambda>req. Inl e) pc prompt t = Inl e"
  "callGemini r (\<lambda>req. Inl e) pc prompt t = Inl e"
  by (simp_all add: callAnthropic_def callOpenAI_def callGemini_def)

lemma callers_http_error:
  "\<exists>e. callAnthropic r (\<lambda>req. Inr \<lparr>ok = False, status = n, json_body = j\<rparr>) pc prompt t = Inl e"
  "\<exists>e. callOpenAI r (\<lambda>req. Inr \<lparr>ok = False, status = n, json_body = j\<rparr>) pc prompt t = Inl e"
  "\<exists>e. callGemini r (\<lambda>req. Inr \<lparr>ok = False, status = n, json_body = j\<rparr>) pc prompt t = Inl e"
  by (simp_all add: callAnthropic_def callOpenAI_def callGemini_def)

lemma callers_bad_json:
  "callAnthropic r (\<lambda>req. Inr \<lparr>ok = True, status = n, json_body = Inl e\<rparr>) pc prompt t = Inl e"
  "callOpenAI r (\<lambda>req. Inr \<lparr>ok = True, status = n, json_body = Inl e\<rparr>) pc prompt t = Inl e"
  "callGemini r (\<lambda>req. Inr \<lparr>ok = True, status = n, json_body = Inl e\<rparr>) pc prompt t = Inl e"
  by (simp_all add: callAnthropic_def callOpenAI_def callGemini_def)

lemma provider_answer_failing:
  assumes "\<And>pc prompt t. \<exists>e. callAnthropic r fetch pc prompt t = Inl e"
    and "\<And>pc prompt t. \<exists>e. callOpenAI r fetch pc prompt t = Inl e"
    and "\<And>pc prompt t. \<exists>e. callGemini r fetch pc prompt t = Inl e"
  shows "provider_answer r env fetch texts c \<noteq> Some (Inr a)"
proof (cases "detectProvider env c")
  case None
  then show ?thesis by (simp add: provider_answer_def)
next
  case (Some pc)
  obtain e1 e2 e3 where
    "callAnthropic r fetch pc (assessment_prompt texts) (timeoutMs c) = Inl e1"
    "callOpenAI r fetch pc (assessment_prompt texts) (timeoutMs c) = Inl e2"
    "callGemini r fetch pc (assessment_prompt texts) (timeoutMs c) = Inl e3"
    using assms by meson
  with Some show ?thesis by (simp add: provider_answer_def)
qed

lemma text_answer_DONE:
  "(text_answer r v = Inr ''DONE'') =
     (\<exists>s. v = Some (JStr s) \<and> toUpperCase r (trim r s) = ''DONE'')"
  by (cases "(r, v)" rule: text_answer.cases) simp_all

lemma response_text_null [simp]: "response_text p JNull = None"
  by (simp add: response_text_def)

lemma callAnthropic_DONE:
  "(callAnthropic r fetch pc prompt t = Inr ''DONE'') =
     (\<exists>resp data s. fetch (anthropic_request pc prompt t) = Inr resp \<and> ok resp
        \<and> json_body resp = Inr data \<and> response_text ''anthropic'' data = Some (JStr s)
        \<and> toUpperCase r (trim r s) = ''DONE'')"
proof (cases "fetch (anthropic_request pc prompt t)")
  case (Inl e)
  then show ?thesis by (simp add: callAnthropic_def)
next
  case (Inr resp)
  show ?thesis
  proof (cases "json_body resp")
    case (Inl e)
    with Inr show ?thesis by (simp add: callAnthropic_def)
  next
    case body: (Inr data)
    show ?thesis
    proof (cases "data = JNull")
      case True
      with Inr body show ?thesis by (simp add: callAnthropic_def member_def)
    next
      case False
      with Inr body show ?thesis
        by (simp add: callAnthropic_def member_def text_answer_DONE response_text_def)
    qed
  qed
qed

lemma callOpenAI_DONE:
  "(callOpenAI r fetch pc prompt t = Inr ''DONE'') =
     (\<exists>resp data s. fetch (openai_request pc prompt t) = Inr resp \<and> ok resp
        \<and> json_body resp = Inr data \<and> response_text ''openai'' data = Some (JStr s)
        \<and> toUpperCase r (trim r s) = ''DONE'')"
proof (cases "fetch (openai_request pc prompt t)")
  case (Inl e)
  then show ?thesis by (simp add: callOpenAI_def)
next
  case (Inr resp)
  show ?thesis
  proof (cases "json_body resp")
    case (Inl e)
    with Inr show ?thesis by (simp add: callOpenAI_def)
  next
    case body: (Inr data)
    show ?thesis
    proof (cases "data = JNull")
      case True
      with Inr body show ?thesis by (simp add: callOpenAI_def member_def)
    next
      case False
      with Inr body show ?thesis
        by (simp add: callOpenAI_def member_def text_answer_DONE response_text_def)
    qed
  qed
qed

lemma callGemini_DONE:
  "(callGemini r fetch pc prompt t = Inr ''DONE'') =
     (\<exists>resp data s. fetch (gemini_request pc prompt t) = Inr resp \<and> ok resp
        \<and> json_body resp = Inr data \<and> response_text ''gemini'' data = Some (JStr s)
        \<and> toUpperCase r (trim r s) = ''DONE'')"
proof (cases "fetch (gemini_request pc prompt t)")
  case (Inl e)
  then show ?thesis by (simp add: callGemini_def)
next
  case (Inr resp)
  show ?thesis
  proof (cases "json_body resp")
    case (Inl e)
    with Inr show ?thesis by (simp add: callGemini_def)
  next
    case body: (Inr data)
    show ?thesis
    proof (cases "data = JNull")
      case True
      with Inr body show ?thesis by (simp add: callGemini_def member_def)
    next
      case False
      with Inr body show ?thesis
        by (simp add: callGemini_def member_def text_answer_DONE response_text_def)
    qed
  qed
qed

lemma assess_true_iff:
  "(assessTaskCompletion r env fetch texts c = Inr True) =
     (\<exists>pc resp data s. detectProvider env c = Some pc
        \<and> fetch (provider_request pc (assessment_prompt texts) (timeoutMs c)) = Inr resp
        \<and> ok resp \<and> json_body resp = Inr data
        \<and> response_text (pc_provider pc) data = Some (JStr s)
        \<and> toUpperCase r (trim r s) = ''DONE'')"
proof (cases "detectProvider env c")
  case None
  then show ?thesis by (simp add: assess_answer provider_answer_def)
next
  case (Some pc)
  from detectProvider_names [OF Some] show ?thesis
  proof (elim disjE)
    assume p: "pc_provider pc = ''anthropic''"
    with Some show ?thesis
      by (simp add: assess_answer provider_answer_def provider_request_def callAnthropic_DONE)
  next
    assume p: "pc_provider pc = ''openai''"
    with Some show ?thesis
      by (simp add: assess_answer provider_answer_def provider_request_def callOpenAI_DONE)
  next
    assume p: "pc_provider pc = ''gemini''"
    with Some show ?thesis
      by (simp add: assess_answer provider_answer_def provider_request_def callGemini_DONE)
  qed
qed

text \<open>
  C6. For a configuration of the declared type, \<open>assessTaskCompletion\<close> always returns
  a boolean and never throws. It returns \<open>true\<close> exactly when a provider resolves, the
  request to that provider is answered with a success status and a JSON body, the text
  field of that body (at the path of the provider) is a string, and that string, trimmed
  and upper-cased, is \<open>DONE\<close>. In every other case it returns \<open>false\<close>: in particular
  when the request is rejected (network failure or the timeout), when the status is not a
  success, and when the body is not JSON.
\<close>

theorem assess_verdict:
  "(\<exists>b. assessTaskCompletion r env fetch texts c = Inr b)
   \<and> (assessTaskCompletion r env fetch texts c = Inr True) =
       (\<exists>pc resp data s. detectProvider env c = Some pc
          \<and> fetch (provider_request pc (assessment_prompt texts) (timeoutMs c)) = Inr resp
          \<and> ok resp \<and> json_body resp = Inr data
          \<and> response_text (pc_provider pc) data = Some (JStr s)
          \<and> toUpperCase r (trim r s) = ''DONE'')
   \<and> assessTaskCompletion r env (\<lambda>req. Inl e) texts c = Inr False
   \<and> assessTaskCompletion r env (\<lambda>req. Inr \<lparr>ok = False, status = n, json_body = j\<rparr>) texts c
       = Inr False
   \<and> assessTaskCompletion r env (\<lambda>req. Inr \<lparr>ok = True, status = n, json_body = Inl e\<rparr>) texts c
       = Inr False"
proof (intro conjI)
  show "\<exists>b. assessTaskCompletion r env fetch texts c = Inr b"
    by (simp add: assess_answer)
  show "(assessTaskCompletion r env fetch texts c = Inr True) =
       (\<exists>pc resp data s. detectProvider env c = Some pc
          \<and> fetch (provider_request pc (assessment_prompt texts) (timeoutMs c)) = Inr resp
          \<and> ok resp \<and> json_body resp = Inr data
          \<and> response_text (pc_provider pc) data = Some (JStr s)
          \<and> toUpperCase r (trim r s) = ''DONE'')"
    by (rule assess_true_iff)
  show "assessTaskCompletion r env (\<lambda>req. Inl e) texts c = Inr False"
    unfolding assess_answer
    by (simp add: provider_answer_failing callers_reject)
  show "assessTaskCompletion r env (\<lambda>req. Inr \<lparr>ok = False, status = n, json_body = j\<rparr>) texts c
       = Inr False"
    unfolding assess_answer
    by (simp add: provider_answer_failing callers_http_error)
  show "assessTaskCompletion r env (\<lambda>req. Inr \<lparr>ok = True, status = n, json_body = Inl e\<rparr>) texts c
       = Inr False"
    unfolding assess_answer
    by (simp add: provider_answer_failing callers_bad_json)
qed

lemma detect_anthropic_default:
  "detectProvider env_anthropic_only DEFAULT_SMART_CONTINUE = Some pc_anthropic_auto"
  by (simp add: detectProvider_unset DEFAULT_SMART_CONTINUE_def auto_detect_anthropic
        pc_anthropic_auto_def startsWith_def)
     (simp add: env_anthropic_only_def getenv_def or_str_def)

lemma ascii_normalise:
  "toUpperCase ascii_runtime (trim ascii_runtime done_text) = ''DONE''"
  "toUpperCase ascii_runtime (trim ascii_runtime ''Not_done'') = ''NOT_DONE''"
  by (simp_all add: ascii_runtime_def ascii_space_def ascii_upper_def done_text_def)

lemma detect_no_credentials: "detectProvider Map.empty DEFAULT_SMART_CONTINUE = None"
  by (simp add: detectProvider_None credential_def getenv_def or_str_def)

theorem assess_verdict_witness:
  "assessTaskCompletion ascii_runtime env_anthropic_only (\<lambda>req. Inr done_response)
     [''all steps finished''] DEFAULT_SMART_CONTINUE = Inr True
   \<and> assessTaskCompletion ascii_runtime env_anthropic_only (\<lambda>req. Inr not_done_response)
     [''all steps finished''] DEFAULT_SMART_CONTINUE = Inr False
   \<and> assessTaskCompletion ascii_runtime Map.empty (\<lambda>req. Inr done_response)
     [''all steps finished''] DEFAULT_SMART_CONTINUE = Inr False"
proof (intro conjI)
  let ?texts = "[''all steps finished'']"
  let ?c = "DEFAULT_SMART_CONTINUE"
  have t: "response_text ''anthropic''
             (JObj [(''content'', JArr [JObj [(''type'', JStr ''text''), (''text'', JStr x)]])])
           = Some (JStr x)" for x
    by (simp add: response_text_def)
  note v1 = assess_verdict [of ascii_runtime env_anthropic_only "\<lambda>req. Inr done_response"
        ?texts ?c AbortError 0 "Inl AbortError"]
  from v1 show "assessTaskCompletion ascii_runtime env_anthropic_only (\<lambda>req. Inr done_response)
     ?texts ?c = Inr True"
    by (simp add: detect_anthropic_default done_response_def pc_anthropic_auto_def t
          ascii_normalise)
  note v2 = assess_verdict [of ascii_runtime env_anthropic_only "\<lambda>req. Inr not_done_response"
        ?texts ?c AbortError 0 "Inl AbortError"]
  from v2 obtain b where b: "assessTaskCompletion ascii_runtime env_anthropic_only
        (\<lambda>req. Inr not_done_response) ?texts ?c = Inr b"
    by blast
  from v2 have "assessTaskCompletion ascii_runtime env_anthropic_only
        (\<lambda>req. Inr not_done_response) ?texts ?c \<noteq> Inr True"
    by (simp add: detect_anthropic_default not_done_response_def pc_anthropic_auto_def t
          ascii_normalise)
  with b show "assessTaskCompletion ascii_runtime env_anthropic_only
        (\<lambda>req. Inr not_done_response) ?texts ?c = Inr False"
    by (cases b) simp_all
  note v3 = assess_verdict [of ascii_runtime Map.empty "\<lambda>req. Inr done_response"
        ?texts ?c AbortError 0 "Inl AbortError"]
  from v3 obtain b' where b': "assessTaskCompletion ascii_runtime Map.empty
        (\<lambda>req. Inr done_response) ?texts ?c = Inr b'"
    by blast
  from v3 have "assessTaskCompletion ascii_runtime Map.empty
        (\<lambda>req. Inr done_response) ?texts ?c \<noteq> Inr True"
    by (simp add: detect_no_credentials)
  with b' show "assessTaskCompletion ascii_runtime Map.empty
        (\<lambda>req. Inr done_response) ?texts ?c = Inr False"
    by (cases b') simp_all
qed

section \<open>The two gates on a result message\<close>

lemma handle_result_outcomes:
  assumes nf: "\<not> auto_continue_fires sub n s"
  defines "s2 \<equiv> (updateThinking False s)\<lparr>autoContinueCount := 0\<rparr>"
  defines "s3 \<equiv> (emit (Assess (recentAssistantTexts s2)) s2)\<lparr>assessCalls := assessCalls s2 + 1\<rparr>"
  shows "handle_result W cfg sub n s = turn_complete W s2
       \<or> (\<exists>c. cfg = Some c \<and> \<not> isCompactCommand s \<and>
              handle_result W cfg sub n s =
                (Next, updateThinking True (emit (Push (continueMessage c))
                         (s3\<lparr>smartContinueCount := smartContinueCount s + 1\<rparr>))))
       \<or> ((\<exists>c. cfg = Some c) \<and> \<not> isCompactCommand s
            \<and> handle_result W cfg sub n s = turn_complete W s3)"
proof -
  have g1: "\<not> (sub = ''success'' \<and> num_turns_le \<and> \<not> isCompactCommand (updateThinking False s)
        \<and> autoContinueCount (updateThinking False s) < MAX_AUTO_CONTINUE)"
    if "num_turns_le = (n \<le> 1)" for num_turns_le
    using nf that
    by (simp add: auto_continue_fires_def MAX_AUTO_CONTINUE_def updateThinking_def emit_def)
  have f: "recentAssistantTexts s2 = recentAssistantTexts s" "assessCalls s2 = assessCalls s"
    "isCompactCommand s2 = isCompactCommand s" "smartContinueCount s2 = smartContinueCount s"
    by (simp_all add: s2_def updateThinking_def emit_def)
  have f3: "smartContinueCount s3 = smartContinueCount s"
    by (simp add: s3_def f emit_def)
  show ?thesis
  proof (cases cfg)
    case None
    then show ?thesis
      unfolding handle_result_def Let_def
      by (simp add: g1 [OF refl] s2_def)
  next
    case (Some c)
    let ?gate = "enabled c \<and> \<not> isCompactCommand s2 \<and> int (smartContinueCount s2) < maxRetries c"
    let ?ask = "\<not> list_ex (\<lambda>t. includes_str t (completionMarker c)) (recentAssistantTexts s2)
                \<and> sub = ''success'' \<and> n > 1"
    have unfolded: "handle_result W cfg sub n s =
        (if ?gate then
           if ?ask then
             (case assessTaskCompletion (rt W) (session_env W) (net W (assessCalls s2))
                     (recentAssistantTexts s2) c of
                Inl e \<Rightarrow> (Throw e, s3)
              | Inr isDone \<Rightarrow>
                  if \<not> isDone then
                    (Next, updateThinking True
                             (emit (Push (continueMessage c))
                                (s3\<lparr>smartContinueCount := smartContinueCount s3 + 1\<rparr>)))
                  else turn_complete W s3)
           else turn_complete W s2
         else turn_complete W s2)"
      unfolding handle_result_def Let_def Some s2_def s3_def option.case
      by (simp only: g1 [OF refl] if_False)
    show ?thesis
    proof (cases "?gate \<and> ?ask")
      case False
      with unfolded show ?thesis by auto
    next
      case True
      then have nc: "\<not> isCompactCommand s" by (simp add: f)
      obtain b where b: "assessTaskCompletion (rt W) (session_env W) (net W (assessCalls s2))
                     (recentAssistantTexts s2) c = Inr b"
        by (simp add: assess_answer)
      show ?thesis
      proof (cases b)
        case True
        with \<open>?gate \<and> ?ask\<close> unfolded b nc Some show ?thesis by simp
      next
        case False
        with \<open>?gate \<and> ?ask\<close> unfolded b nc Some show ?thesis by (simp add: f3)
      qed
    qed
  qed
qed

lemma completion_effects_cong:
  "isCompactCommand a = isCompactCommand b \<Longrightarrow> nextMessageCalls a = nextMessageCalls b \<Longrightarrow>
   completion_effects W a = completion_effects W b"
  by (simp add: completion_effects_def)

text \<open>
  C1. On a result message the structural gate fires, which shows as the streak counter
  going up by one, exactly when the subtype is \<open>success\<close>, \<open>num_turns\<close> is at most 1, no
  compaction command is being processed and the counter is below 3. When it fires, the
  loop goes on to the next message, and what the driver does for this message is: forward
  it, clear the thinking indicator if it was set, push the fixed continuation message and
  set the indicator again. The assessor is not called, \<open>onReady\<close> and \<open>nextMessage\<close> are
  not called, and the smart-continue counter, the buffer and the compaction flag are as
  before. When it does not fire, the counter is 0 and, after forwarding the message and
  clearing the indicator, the driver does one of three things and nothing else: it
  completes the turn; or it calls the assessor and pushes the continuation message of the
  configuration; or it calls the assessor and completes the turn. So the first thing it
  does then is never the push of the fixed message.
\<close>

theorem auto_continue_gate:
  "(case loop_body W cfg (ResultMsg sub n) s of (c, s') \<Rightarrow>
     (autoContinueCount s' = autoContinueCount s + 1) = auto_continue_fires sub n s
     \<and> (if auto_continue_fires sub n s
         then c = Next
              \<and> effects s' = effects s @ [OnMessage (ResultMsg sub n)]
                    @ (if thinking s then [OnThinkingChange False] else [])
                    @ [Push AUTO_CONTINUE_MESSAGE, OnThinkingChange True]
              \<and> thinking s'
              \<and> smartContinueCount s' = smartContinueCount s
              \<and> assessCalls s' = assessCalls s
              \<and> nextMessageCalls s' = nextMessageCalls s
              \<and> recentAssistantTexts s' = recentAssistantTexts s
              \<and> isCompactCommand s' = isCompactCommand s
         else autoContinueCount s' = 0
              \<and> (effects s' = effects s @ [OnMessage (ResultMsg sub n)]
                      @ (if thinking s then [OnThinkingChange False] else [])
                      @ completion_effects W s
                    \<and> c = (case nextMessage W (nextMessageCalls s) of None \<Rightarrow> Return | Some m \<Rightarrow> Next)
                    \<and> assessCalls s' = assessCalls s
                    \<and> smartContinueCount s' = smartContinueCount s
                  \<or> (\<exists>cf. cfg = Some cf
                        \<and> effects s' = effects s @ [OnMessage (ResultMsg sub n)]
                            @ (if thinking s then [OnThinkingChange False] else [])
                            @ [Assess (recentAssistantTexts s), Push (continueMessage cf),
                               OnThinkingChange True]
                        \<and> c = Next
                        \<and> assessCalls s' = assessCalls s + 1
                        \<and> smartContinueCount s' = smartContinueCount s + 1)
                  \<or> (\<exists>cf. cfg = Some cf)
                    \<and> effects s' = effects s @ [OnMessage (ResultMsg sub n)]
                        @ (if thinking s then [OnThinkingChange False] else [])
                        @ [Assess (recentAssistantTexts s)] @ completion_effects W s
                    \<and> c = (case nextMessage W (nextMessageCalls s) of None \<Rightarrow> Return | Some m \<Rightarrow> Next)
                    \<and> assessCalls s' = assessCalls s + 1
                    \<and> smartContinueCount s' = smartContinueCount s)))"
proof (cases "auto_continue_fires sub n s")
  case True
  then have "loop_body W cfg (ResultMsg sub n) s =
     (Next, updateThinking True (emit (Push AUTO_CONTINUE_MESSAGE)
        ((updateThinking False (emit (OnMessage (ResultMsg sub n)) s))
           \<lparr>autoContinueCount := autoContinueCount (emit (OnMessage (ResultMsg sub n)) s) + 1\<rparr>)))"
    by (simp add: loop_body_result handle_result_fires)
  with True show ?thesis
    by (simp add: updateThinking_def emit_def)
next
  case False
  let ?m = "ResultMsg sub n"
  let ?s1 = "emit (OnMessage ?m) s"
  let ?s2 = "(updateThinking False ?s1)\<lparr>autoContinueCount := 0\<rparr>"
  let ?s3 = "(emit (Assess (recentAssistantTexts ?s2)) ?s2)\<lparr>assessCalls := assessCalls ?s2 + 1\<rparr>"
  let ?pre = "effects s @ [OnMessage ?m] @ (if thinking s then [OnThinkingChange False] else [])"
  have zero: "autoContinueCount (snd (loop_body W cfg ?m s)) = 0"
    using False by (simp add: loop_body_result handle_result_not_fires)
  have s2: "effects ?s2 = ?pre" "assessCalls ?s2 = assessCalls s"
    "smartContinueCount ?s2 = smartContinueCount s" "nextMessageCalls ?s2 = nextMessageCalls s"
    "isCompactCommand ?s2 = isCompactCommand s" "recentAssistantTexts ?s2 = recentAssistantTexts s"
    by (simp_all add: updateThinking_def emit_def)
  have s3: "effects ?s3 = ?pre @ [Assess (recentAssistantTexts s)]"
    "assessCalls ?s3 = assessCalls s + 1"
    "smartContinueCount ?s3 = smartContinueCount s" "nextMessageCalls ?s3 = nextMessageCalls s"
    "isCompactCommand ?s3 = isCompactCommand s" "thinking ?s3 = False"
    by (simp_all add: updateThinking_def emit_def)
  have ce: "completion_effects W ?s2 = completion_effects W s"
    "completion_effects W ?s3 = completion_effects W s"
    by (rule completion_effects_cong; simp add: updateThinking_def emit_def)+
  from False have nf: "\<not> auto_continue_fires sub n ?s1" by simp
  from handle_result_outcomes [OF nf, of W cfg]
  consider (complete) "loop_body W cfg ?m s = turn_complete W ?s2"
    | (smart) cf where "cfg = Some cf"
        "loop_body W cfg ?m s =
           (Next, updateThinking True (emit (Push (continueMessage cf))
                    (?s3\<lparr>smartContinueCount := smartContinueCount ?s1 + 1\<rparr>)))"
    | (assessed) "\<exists>cf. cfg = Some cf" "loop_body W cfg ?m s = turn_complete W ?s3"
    unfolding loop_body_result by blast
  then show ?thesis
  proof cases
    case complete
    have "fst (loop_body W cfg ?m s)
            = (case nextMessage W (nextMessageCalls s) of None \<Rightarrow> Return | Some m \<Rightarrow> Next)"
      and "effects (snd (loop_body W cfg ?m s)) = ?pre @ completion_effects W s"
      and "assessCalls (snd (loop_body W cfg ?m s)) = assessCalls s"
      and "smartContinueCount (snd (loop_body W cfg ?m s)) = smartContinueCount s"
      unfolding complete turn_complete_fields s2 ce by simp_all
    with False zero show ?thesis
      by (simp add: case_prod_beta)
  next
    case smart
    have "fst (loop_body W cfg ?m s) = Next"
      and "effects (snd (loop_body W cfg ?m s))
            = ?pre @ [Assess (recentAssistantTexts s), Push (continueMessage cf), OnThinkingChange True]"
      and "assessCalls (snd (loop_body W cfg ?m s)) = assessCalls s + 1"
      and "smartContinueCount (snd (loop_body W cfg ?m s)) = smartContinueCount s + 1"
      unfolding smart(2) by (simp_all add: updateThinking_def emit_def)
    with False zero smart(1) show ?thesis
      by (simp add: case_prod_beta)
  next
    case assessed
    have "fst (loop_body W cfg ?m s)
            = (case nextMessage W (nextMessageCalls s) of None \<Rightarrow> Return | Some m \<Rightarrow> Next)"
      and "effects (snd (loop_body W cfg ?m s))
            = ?pre @ [Assess (recentAssistantTexts s)] @ completion_effects W s"
      and "assessCalls (snd (loop_body W cfg ?m s)) = assessCalls s + 1"
      and "smartContinueCount (snd (loop_body W cfg ?m s)) = smartContinueCount s"
      unfolding assessed(2) turn_complete_fields s3 ce by simp_all
    with False zero assessed(1) show ?thesis
      by (simp add: case_prod_beta)
  qed
qed

theorem auto_continue_gate_witness:
  "auto_continue_fires ''success'' 1 streak_two
   \<and> effects (snd (loop_body quiet_world None (ResultMsg ''success'' 1) streak_two))
       = [OnMessage (ResultMsg ''success'' 1), OnThinkingChange False,
          Push AUTO_CONTINUE_MESSAGE, OnThinkingChange True]
   \<and> autoContinueCount (snd (loop_body quiet_world None (ResultMsg ''success'' 1) streak_two)) = 3
   \<and> \<not> auto_continue_fires ''success'' 1 streak_three
   \<and> effects (snd (loop_body quiet_world None (ResultMsg ''success'' 1) streak_three))
       = [OnMessage (ResultMsg ''success'' 1), OnThinkingChange False,
          OnReady, NextMessage, End]
   \<and> autoContinueCount (snd (loop_body quiet_world None (ResultMsg ''success'' 1) streak_three)) = 0"
proof -
  have two: "auto_continue_fires ''success'' 1 streak_two"
    and three: "\<not> auto_continue_fires ''success'' 1 streak_three"
    by (simp_all add: auto_continue_fires_def streak_two_def streak_three_def initial_driver_def)
  have ce: "completion_effects quiet_world streak_three = [OnReady, NextMessage, End]"
    by (simp add: completion_effects_def streak_three_def initial_driver_def quiet_world_def)
  from auto_continue_gate [where W = quiet_world and cfg = None and sub = "''success''" and n = 1
      and s = streak_two] two
  have a: "effects (snd (loop_body quiet_world None (ResultMsg ''success'' 1) streak_two))
       = [OnMessage (ResultMsg ''success'' 1), OnThinkingChange False,
          Push AUTO_CONTINUE_MESSAGE, OnThinkingChange True]"
    and a': "autoContinueCount (snd (loop_body quiet_world None (ResultMsg ''success'' 1) streak_two)) = 3"
    by (simp_all add: case_prod_beta streak_two_def initial_driver_def)
  from auto_continue_gate [where W = quiet_world and cfg = None and sub = "''success''" and n = 1
      and s = streak_three] three
  have b': "autoContinueCount (snd (loop_body quiet_world None (ResultMsg ''success'' 1) streak_three)) = 0"
    by (auto simp add: case_prod_beta streak_three_def initial_driver_def)
  have "assessCalls (snd (loop_body quiet_world None (ResultMsg ''success'' 1) streak_three)) = 0"
    by (simp add: loop_body_result handle_result_def MAX_AUTO_CONTINUE_def updateThinking_def
          emit_def Let_def streak_three_def initial_driver_def)
  moreover from auto_continue_gate [where W = quiet_world and cfg = None and sub = "''success''" and n = 1
      and s = streak_three] three
  have "assessCalls (snd (loop_body quiet_world None (ResultMsg ''success'' 1) streak_three)) = 0
          \<longrightarrow> effects (snd (loop_body quiet_world None (ResultMsg ''success'' 1) streak_three))
               = effects streak_three @ [OnMessage (ResultMsg ''success'' 1), OnThinkingChange False]
                  @ completion_effects quiet_world streak_three"
    by (auto simp add: case_prod_beta streak_three_def initial_driver_def)
  ultimately have "effects (snd (loop_body quiet_world None (ResultMsg ''success'' 1) streak_three))
       = [OnMessage (ResultMsg ''success'' 1), OnThinkingChange False, OnReady, NextMessage, End]"
    by (simp add: ce) (simp add: streak_three_def initial_driver_def)
  with two three a a' b' show ?thesis by simp
qed

section \<open>The rolling buffer of assistant texts\<close>

lemma join_with_nonempty:
  "xs \<noteq> [] \<Longrightarrow> list_all (\<lambda>x. x \<noteq> []) xs \<Longrightarrow> join_with sep xs \<noteq> []"
  by (induction sep xs rule: join_with.induct) simp_all

lemma text_of_block_nonempty: "list_all (\<lambda>x. x \<noteq> []) (text_of_block b)"
  by (simp add: text_of_block_def split: option.splits)

lemma extractAssistantText_nonempty:
  assumes "extractAssistantText m = Some x"
  shows "x \<noteq> []"
proof -
  from assms obtain content where m: "m = AssistantMsg content"
    by (cases m) (simp_all add: extractAssistantText_def)
  define texts where
    "texts = concat (map text_of_block (case content of None \<Rightarrow> [] | Some bs \<Rightarrow> bs))"
  have all: "list_all (\<lambda>x. x \<noteq> []) texts"
    unfolding texts_def list_all_iff
    using text_of_block_nonempty [unfolded list_all_iff] by auto
  have "extractAssistantText m = (if texts \<noteq> [] then Some (join_with [CHR 0x0A] texts) else None)"
    unfolding m texts_def by (simp add: extractAssistantText_def)
  with assms have "texts \<noteq> []" and "x = join_with [CHR 0x0A] texts"
    by (simp_all split: if_splits)
  with all show ?thesis
    by (simp add: join_with_nonempty)
qed

lemma handle_result_buffer [simp]:
  "recentAssistantTexts (snd (handle_result W cfg sub n s)) = recentAssistantTexts s"
  by (simp add: handle_result_def updateThinking_def emit_def Let_def
        split: option.splits sum.splits)

lemma handle_init_buffer [simp]:
  "recentAssistantTexts (handle_init m s) = recentAssistantTexts s"
  by (simp add: handle_init_def updateThinking_def emit_def Let_def
        split: SDKMessage.splits option.splits)

lemma loop_body_buffer:
  "recentAssistantTexts (snd (loop_body W cfg m s)) = recentAssistantTexts (buffer_text cfg m s)"
  by (cases m) (simp_all add: loop_body_def emit_def Let_def)

lemma buffer_text_Some:
  assumes "extractAssistantText m = Some x"
  shows "recentAssistantTexts (buffer_text (Some c) m s) =
          (if int (length (recentAssistantTexts s)) + 1 > bufferSize c
           then tl (recentAssistantTexts s @ [x]) else recentAssistantTexts s @ [x])"
  using assms extractAssistantText_nonempty [OF assms]
  by (simp add: buffer_text_def Let_def)

lemma buffer_text_None:
  "extractAssistantText m = None \<Longrightarrow> buffer_text cfg m s = s"
  by (simp add: buffer_text_def)

lemma buffer_text_bound:
  assumes "0 \<le> bufferSize c" and "int (length (recentAssistantTexts s)) \<le> bufferSize c"
  shows "int (length (recentAssistantTexts (buffer_text (Some c) m s))) \<le> bufferSize c"
proof (cases "extractAssistantText m")
  case None
  with assms show ?thesis by (simp add: buffer_text_None)
next
  case (Some x)
  with assms show ?thesis by (simp add: buffer_text_Some)
qed

lemma iterate_invariant:
  assumes step: "\<And>m s. P s \<Longrightarrow> P (snd (loop_body W cfg m s))"
    and "P s"
  shows "P (snd (iterate W cfg ms fin s))"
  using assms(2)
proof (induction ms arbitrary: s)
  case Nil
  then show ?case by (cases fin) simp_all
next
  case (Cons m ms)
  obtain ctl s' where b: "loop_body W cfg m s = (ctl, s')"
    by (cases "loop_body W cfg m s")
  with step [OF Cons.prems, of m] have "P s'" by simp
  with b Cons.IH [of s'] show ?case
    by (cases ctl) simp_all
qed

lemma prepare_buffer:
  "recentAssistantTexts (case prepare W of Inl s \<Rightarrow> s | Inr s \<Rightarrow> s) = []"
  by (simp add: prepare_def initial_driver_def emit_def updateThinking_def Let_def
        split: option.splits)

lemma catch_finally_buffer [simp]:
  "recentAssistantTexts (snd (catch_finally r)) = recentAssistantTexts (snd r)"
  by (cases r) (simp add: catch_finally_def updateThinking_def emit_def
        split: completion.splits exn.splits)

text \<open>
  C7, as the code has it. Let \<open>bufferSize\<close> be at least 0. A step of the loop that starts
  with at most \<open>bufferSize\<close> entries in the buffer ends with at most \<open>bufferSize\<close>
  entries, and so does every run of the driver, which starts with an empty buffer. An
  assistant text that arrives when the buffer holds exactly \<open>bufferSize\<close> entries is
  appended and the oldest entry removed, the others keeping their order; one that arrives
  when the buffer holds fewer is appended and nothing removed.
\<close>

theorem buffer_bounded:
  assumes "0 \<le> bufferSize c"
  shows "(int (length (recentAssistantTexts s)) \<le> bufferSize c \<longrightarrow>
            int (length (recentAssistantTexts (snd (loop_body W (Some c) m s)))) \<le> bufferSize c)
       \<and> int (length (recentAssistantTexts (snd (claudeRemote W (Some c) stream fin)))) \<le> bufferSize c
       \<and> (extractAssistantText m = Some x \<and> int (length (recentAssistantTexts s)) = bufferSize c \<longrightarrow>
            recentAssistantTexts (snd (loop_body W (Some c) m s)) = tl (recentAssistantTexts s @ [x]))
       \<and> (extractAssistantText m = Some x \<and> int (length (recentAssistantTexts s)) < bufferSize c \<longrightarrow>
            recentAssistantTexts (snd (loop_body W (Some c) m s)) = recentAssistantTexts s @ [x])"
proof (intro conjI impI)
  let ?P = "\<lambda>s. int (length (recentAssistantTexts s)) \<le> bufferSize c"
  have step: "?P (snd (loop_body W (Some c) m s))" if "?P s" for m s
    using assms that by (simp add: loop_body_buffer buffer_text_bound)
  then show "?P (snd (loop_body W (Some c) m s))" if "?P s"
    using that .
  show "?P (snd (claudeRemote W (Some c) stream fin))"
  proof (cases "prepare W")
    case (Inl s0)
    with prepare_buffer [of W] assms show ?thesis
      by (simp add: claudeRemote_def)
  next
    case (Inr s0)
    with prepare_buffer [of W] assms have "?P s0" by simp
    then have "?P (snd (iterate W (Some c) stream fin s0))"
      using step by (rule iterate_invariant [rotated])
    with Inr show ?thesis by (simp add: claudeRemote_def)
  qed
next
  assume "extractAssistantText m = Some x \<and> int (length (recentAssistantTexts s)) = bufferSize c"
  then show "recentAssistantTexts (snd (loop_body W (Some c) m s)) = tl (recentAssistantTexts s @ [x])"
    by (simp add: loop_body_buffer buffer_text_Some)
next
  assume "extractAssistantText m = Some x \<and> int (length (recentAssistantTexts s)) < bufferSize c"
  then show "recentAssistantTexts (snd (loop_body W (Some c) m s)) = recentAssistantTexts s @ [x]"
    by (simp add: loop_body_buffer buffer_text_Some)
qed

lemma extract_working_msg [simp]: "extractAssistantText working_msg = Some ''working on it''"
  by (simp add: working_msg_def extractAssistantText_def text_of_block_def)

theorem buffer_bounded_counterexample:
  "recentAssistantTexts (snd (loop_body quiet_world (Some cfg_negative) working_msg initial_driver)) = []
   \<and> \<not> int (length (recentAssistantTexts
              (snd (loop_body quiet_world (Some cfg_negative) working_msg initial_driver))))
         \<le> bufferSize cfg_negative"
  by (simp add: loop_body_buffer buffer_text_Some cfg_negative_def initial_driver_def)

theorem buffer_bounded_witness:
  "0 \<le> bufferSize DEFAULT_SMART_CONTINUE
   \<and> extractAssistantText working_msg = Some ''working on it''
   \<and> int (length (recentAssistantTexts full_driver)) = bufferSize DEFAULT_SMART_CONTINUE
   \<and> recentAssistantTexts (snd (loop_body quiet_world (Some DEFAULT_SMART_CONTINUE) working_msg full_driver))
       = [''b'', ''c'', ''d'', ''e'', ''working on it'']
   \<and> int (length (recentAssistantTexts
         (snd (claudeRemote quiet_world (Some DEFAULT_SMART_CONTINUE) [working_msg] Finished)))) \<le> 5"
proof -
  have a: "0 \<le> bufferSize DEFAULT_SMART_CONTINUE"
    by (simp add: DEFAULT_SMART_CONTINUE_def)
  show ?thesis
    using buffer_bounded [OF a, of full_driver quiet_world working_msg "[working_msg]" Finished
        "''working on it''"] a
    by (simp add: full_driver_def initial_driver_def DEFAULT_SMART_CONTINUE_def)
qed

section \<open>Leaving the driver\<close>

lemma indicator_append [simp]:
  "indicator (es @ es') = foldl thinking_after (indicator es) es'"
  by (simp add: indicator_def)

lemma indicator_Nil [simp]: "indicator [] = False"
  by (simp add: indicator_def)

lemma updateThinking_sync:
  "thinking s = indicator (effects s) \<Longrightarrow>
   thinking (updateThinking b s) = indicator (effects (updateThinking b s))"
  by (simp add: updateThinking_def emit_def thinking_after_def)

lemma updateThinking_thinking [simp]: "thinking (updateThinking b s) = b"
  by (simp add: updateThinking_def emit_def)

lemma turn_complete_sync:
  "thinking s = indicator (effects s) \<Longrightarrow>
   thinking (snd (turn_complete W s)) = indicator (effects (snd (turn_complete W s)))"
  by (simp add: completion_effects_def thinking_after_def split: option.splits)

lemma handle_result_sync:
  "thinking s = indicator (effects s) \<Longrightarrow>
   thinking (snd (handle_result W cfg sub n s)) = indicator (effects (snd (handle_result W cfg sub n s)))"
  by (simp add: handle_result_def updateThinking_def emit_def Let_def
        completion_effects_def thinking_after_def split: option.splits sum.splits)

lemma handle_init_sync:
  "thinking s = indicator (effects s) \<Longrightarrow>
   thinking (handle_init m s) = indicator (effects (handle_init m s))"
  by (simp add: handle_init_def updateThinking_def emit_def Let_def thinking_after_def
        split: SDKMessage.splits option.splits)

lemma buffer_text_thinking [simp]:
  "thinking (buffer_text cfg m s) = thinking s"
  "effects (buffer_text cfg m s) = effects s"
  by (simp_all add: buffer_text_def Let_def split: option.splits)

lemma loop_body_sync:
  assumes "thinking s = indicator (effects s)"
  shows "thinking (snd (loop_body W cfg m s)) = indicator (effects (snd (loop_body W cfg m s)))"
proof -
  let ?s3 = "handle_init m (emit (OnMessage m) (buffer_text cfg m s))"
  have "thinking (emit (OnMessage m) (buffer_text cfg m s))
          = indicator (effects (emit (OnMessage m) (buffer_text cfg m s)))"
    using assms by (simp add: emit_def thinking_after_def)
  then have s3: "thinking ?s3 = indicator (effects ?s3)"
    by (rule handle_init_sync)
  show ?thesis
  proof (cases m)
    case (ResultMsg sub n)
    with handle_result_sync [OF s3, of W cfg sub n] show ?thesis
      by (simp add: loop_body_def)
  qed (use s3 in \<open>simp_all add: loop_body_def\<close>)
qed

lemma handle_result_no_throw: "fst (handle_result W cfg sub n s) \<noteq> Throw e"
  by (simp add: handle_result_def Let_def assess_answer split: option.splits)

lemma loop_body_no_throw: "fst (loop_body W cfg m s) \<noteq> Throw e"
  by (cases m)
     (simp_all add: loop_body_def handle_result_no_throw handle_tool_result_def
        split: user_content.splits)

lemma iterate_Threw:
  "iterate W cfg ms fin s = (Threw e, s') \<Longrightarrow> fin = Raises e"
proof (induction ms arbitrary: s)
  case Nil
  then show ?case by (cases fin) simp_all
next
  case (Cons m ms)
  obtain ctl s1 where b: "loop_body W cfg m s = (ctl, s1)"
    by (cases "loop_body W cfg m s")
  with loop_body_no_throw [of W cfg m s] have nt: "\<And>e. ctl \<noteq> Throw e" by simp
  from Cons.prems b nt Cons.IH [of s1] show ?case
    by (cases ctl) auto
qed

lemma prepare_sync:
  "(case prepare W of
      Inl s \<Rightarrow> thinking s = False \<and> indicator (effects s) = False
    | Inr s \<Rightarrow> thinking s = indicator (effects s))"
  by (simp add: prepare_def initial_driver_def emit_def updateThinking_def Let_def
        thinking_after_def indicator_def split: option.splits)

lemma catch_finally_thinking:
  assumes "thinking (snd r) = indicator (effects (snd r))"
  shows "thinking (snd (catch_finally r)) = False"
    and "indicator (effects (snd (catch_finally r))) = False"
proof -
  obtain c s where r: "r = (c, s)" by (cases r)
  have "snd (catch_finally r) = updateThinking False s"
    unfolding r by (simp add: catch_finally_def split: completion.splits exn.splits)
  with assms r updateThinking_sync [of s False]
  show "thinking (snd (catch_finally r)) = False"
    and "indicator (effects (snd (catch_finally r))) = False"
    by simp_all
qed

lemma catch_finally_fst:
  "fst (catch_finally (c, s)) =
     (case c of Normal \<Rightarrow> Normal | Threw e \<Rightarrow> if e = AbortError then Normal else Threw e)"
  by (simp add: catch_finally_def split: completion.splits exn.splits)

text \<open>
  C8. However the driver leaves, the thinking indicator is inactive at that point, both
  the driver's own flag and the last value the caller was told. The driver never throws
  \<open>AbortError\<close>: when the iteration over the stream ends with it, the driver returns
  normally. When the iteration ends with any other error, the driver throws that error.
  An error that the driver throws is the one the stream ended with.
\<close>

theorem driver_exit:
  "thinking (snd (claudeRemote W cfg stream fin)) = False
   \<and> indicator (effects (snd (claudeRemote W cfg stream fin))) = False
   \<and> fst (claudeRemote W cfg stream fin) \<noteq> Threw AbortError
   \<and> (prepare W = Inr s0 \<and> iterate W cfg stream fin s0 = (Threw e, s1) \<longrightarrow>
         fin = Raises e
         \<and> fst (claudeRemote W cfg stream fin) = (if e = AbortError then Normal else Threw e))
   \<and> (fst (claudeRemote W cfg stream fin) = Threw e \<longrightarrow> fin = Raises e \<and> e \<noteq> AbortError)"
proof (cases "prepare W")
  case (Inl s)
  with prepare_sync [of W] show ?thesis
    by (simp add: claudeRemote_def)
next
  case (Inr s)
  with prepare_sync [of W] have "thinking s = indicator (effects s)" by simp
  then have sync: "thinking (snd (iterate W cfg stream fin s))
                     = indicator (effects (snd (iterate W cfg stream fin s)))"
    using loop_body_sync by (rule iterate_invariant [rotated])
  obtain c s' where it: "iterate W cfg stream fin s = (c, s')"
    by (cases "iterate W cfg stream fin s")
  have cr: "claudeRemote W cfg stream fin = catch_finally (c, s')"
    using Inr it by (simp add: claudeRemote_def)
  have raised: "fin = Raises e'" if "c = Threw e'" for e'
    using it that iterate_Threw by blast
  show ?thesis
  proof (intro conjI impI)
    show "thinking (snd (claudeRemote W cfg stream fin)) = False"
      and "indicator (effects (snd (claudeRemote W cfg stream fin))) = False"
      using catch_finally_thinking [of "(c, s')"] sync it cr by simp_all
    show "fst (claudeRemote W cfg stream fin) \<noteq> Threw AbortError"
      unfolding cr catch_finally_fst by (simp split: completion.splits)
  next
    assume "prepare W = Inr s0 \<and> iterate W cfg stream fin s0 = (Threw e, s1)"
    with Inr it have c: "c = Threw e" by simp
    with raised show "fin = Raises e" by simp
    from c show "fst (claudeRemote W cfg stream fin) = (if e = AbortError then Normal else Threw e)"
      unfolding cr catch_finally_fst by simp
  next
    assume t: "fst (claudeRemote W cfg stream fin) = Threw e"
    then have "c = Threw e \<and> e \<noteq> AbortError"
      unfolding cr catch_finally_fst by (simp split: completion.splits if_splits)
    with raised show "fin = Raises e" and "e \<noteq> AbortError" by simp_all
  qed
qed

lemma prepare_quiet: "prepare quiet_world = Inr started_driver"
  by (simp add: prepare_def quiet_world_def started_driver_def initial_driver_def emit_def
        updateThinking_def)

lemma loop_body_working:
  "fst (loop_body quiet_world None working_msg s) = Next"
  by (simp add: loop_body_def working_msg_def handle_init_def)

theorem driver_exit_witness:
  "prepare quiet_world = Inr started_driver
   \<and> fst (iterate quiet_world None [working_msg] (Raises (Error ''socket closed'')) started_driver)
       = Threw (Error ''socket closed'')
   \<and> fst (claudeRemote quiet_world None [working_msg] (Raises (Error ''socket closed'')))
       = Threw (Error ''socket closed'')
   \<and> fst (iterate quiet_world None [working_msg] (Raises AbortError) started_driver)
       = Threw AbortError
   \<and> fst (claudeRemote quiet_world None [working_msg] (Raises AbortError)) = Normal
   \<and> thinking (snd (claudeRemote quiet_world None [working_msg] (Raises AbortError))) = False"
proof -
  have it: "iterate quiet_world None [working_msg] (Raises x) started_driver
            = (Threw x, snd (loop_body quiet_world None working_msg started_driver))" for x
    using loop_body_working [of started_driver]
    by (cases "loop_body quiet_world None working_msg started_driver") simp
  show ?thesis
    using driver_exit [of quiet_world None "[working_msg]" "Raises (Error ''socket closed'')"
            started_driver "Error ''socket closed''"
            "snd (loop_body quiet_world None working_msg started_driver)"]
          driver_exit [of quiet_world None "[working_msg]" "Raises AbortError"
            started_driver AbortError
            "snd (loop_body quiet_world None working_msg started_driver)"]
          prepare_quiet it
    by simp
qed

section \<open>Loading the checkpoint configuration\<close>

lemma load_pointer_read:
  assumes "fs (pointer_path cwd) = File content" and "trim r content \<noteq> []"
  shows "loadCheckpointConfig r fs parse cwd =
     (let threadJsonPath = thread_path cwd (trim r content) in
      if existsSync fs threadJsonPath then
        (case readFileSync fs threadJsonPath of
           Inl e \<Rightarrow> Loaded None
         | Inr txt \<Rightarrow>
             (case parse txt of
                Inl e \<Rightarrow> Loaded None
              | Inr threadData \<Rightarrow>
                  let sc = get_prop (get_prop (Some threadData) ''config'') ''smartContinue'' in
                  if truthy sc then config_of_section sc
                  else Loaded (Some DEFAULT_SMART_CONTINUE)))
      else Loaded (Some DEFAULT_SMART_CONTINUE))"
  using assms
  by (simp add: loadCheckpointConfig_def existsSync_def readFileSync_def Let_def
        pointer_path_def thread_path_def split del: if_split cong: if_cong)

text \<open>
  C10. Let the pointer file exist and hold, after trimming, a checkpoint id that is not
  empty. If the \<open>thread.json\<close> of that checkpoint is missing, or is there and parses to a
  document in which \<open>config.smartContinue\<close> is absent (or any value that counts as false),
  \<open>loadCheckpointConfig\<close> returns the built-in default configuration, which has
  \<open>enabled\<close> true, 2 retries, a buffer of 5 and the marker \<open>[CHECKPOINT_COMPLETE]\<close>. If
  the pointer file or \<open>thread.json\<close> cannot be read, or \<open>thread.json\<close> does not parse,
  it returns \<open>null\<close>.
\<close>

theorem load_defaults:
  "(fs (pointer_path cwd) = File content \<and> trim r content \<noteq> []
      \<and> fs (thread_path cwd (trim r content)) = Missing \<longrightarrow>
        loadCheckpointConfig r fs parse cwd = Loaded (Some DEFAULT_SMART_CONTINUE))
   \<and> (fs (pointer_path cwd) = File content \<and> trim r content \<noteq> []
      \<and> fs (thread_path cwd (trim r content)) = File json_text \<and> parse json_text = Inr doc
      \<and> \<not> truthy (get_prop (get_prop (Some doc) ''config'') ''smartContinue'') \<longrightarrow>
        loadCheckpointConfig r fs parse cwd = Loaded (Some DEFAULT_SMART_CONTINUE))
   \<and> (fs (pointer_path cwd) = Unreadable e \<longrightarrow> loadCheckpointConfig r fs parse cwd = Loaded None)
   \<and> (fs (pointer_path cwd) = File content \<and> trim r content \<noteq> []
      \<and> fs (thread_path cwd (trim r content)) = Unreadable e \<longrightarrow>
        loadCheckpointConfig r fs parse cwd = Loaded None)
   \<and> (fs (pointer_path cwd) = File content \<and> trim r content \<noteq> []
      \<and> fs (thread_path cwd (trim r content)) = File json_text \<and> parse json_text = Inl e \<longrightarrow>
        loadCheckpointConfig r fs parse cwd = Loaded None)
   \<and> enabled DEFAULT_SMART_CONTINUE \<and> maxRetries DEFAULT_SMART_CONTINUE = 2
   \<and> bufferSize DEFAULT_SMART_CONTINUE = 5
   \<and> completionMarker DEFAULT_SMART_CONTINUE = ''[CHECKPOINT_COMPLETE]''"
proof (intro conjI impI)
  assume "fs (pointer_path cwd) = File content \<and> trim r content \<noteq> []
      \<and> fs (thread_path cwd (trim r content)) = Missing"
  then show "loadCheckpointConfig r fs parse cwd = Loaded (Some DEFAULT_SMART_CONTINUE)"
    by (simp add: load_pointer_read existsSync_def)
next
  assume "fs (pointer_path cwd) = File content \<and> trim r content \<noteq> []
      \<and> fs (thread_path cwd (trim r content)) = File json_text \<and> parse json_text = Inr doc
      \<and> \<not> truthy (get_prop (get_prop (Some doc) ''config'') ''smartContinue'')"
  then show "loadCheckpointConfig r fs parse cwd = Loaded (Some DEFAULT_SMART_CONTINUE)"
    by (simp add: load_pointer_read existsSync_def readFileSync_def)
next
  assume "fs (pointer_path cwd) = Unreadable e"
  then show "loadCheckpointConfig r fs parse cwd = Loaded None"
    by (simp add: loadCheckpointConfig_def existsSync_def readFileSync_def pointer_path_def)
next
  assume "fs (pointer_path cwd) = File content \<and> trim r content \<noteq> []
      \<and> fs (thread_path cwd (trim r content)) = Unreadable e"
  then show "loadCheckpointConfig r fs parse cwd = Loaded None"
    by (simp add: load_pointer_read existsSync_def readFileSync_def)
next
  assume "fs (pointer_path cwd) = File content \<and> trim r content \<noteq> []
      \<and> fs (thread_path cwd (trim r content)) = File json_text \<and> parse json_text = Inl e"
  then show "loadCheckpointConfig r fs parse cwd = Loaded None"
    by (simp add: load_pointer_read existsSync_def readFileSync_def)
qed (simp_all add: DEFAULT_SMART_CONTINUE_def)

lemma trim_pointer: "trim ascii_runtime pointer_text = ''t1''"
  by (simp add: ascii_runtime_def ascii_space_def pointer_text_def)

theorem load_defaults_witness:
  "fs_pointer_only (pointer_path ''/w'') = File pointer_text
   \<and> trim ascii_runtime pointer_text \<noteq> []
   \<and> fs_pointer_only (thread_path ''/w'' (trim ascii_runtime pointer_text)) = Missing
   \<and> loadCheckpointConfig ascii_runtime fs_pointer_only parse_fails ''/w''
        = Loaded (Some DEFAULT_SMART_CONTINUE)
   \<and> fs_with_thread (thread_path ''/w'' (trim ascii_runtime pointer_text)) = File ''{}''
   \<and> parse_empty_object ''{}'' = Inr (JObj [])
   \<and> \<not> truthy (get_prop (get_prop (Some (JObj [])) ''config'') ''smartContinue'')
   \<and> loadCheckpointConfig ascii_runtime fs_with_thread parse_empty_object ''/w''
        = Loaded (Some DEFAULT_SMART_CONTINUE)
   \<and> parse_fails ''{}'' = Inl (Error ''SyntaxError'')
   \<and> loadCheckpointConfig ascii_runtime fs_with_thread parse_fails ''/w'' = Loaded None"
proof -
  have p1: "fs_pointer_only (pointer_path ''/w'') = File pointer_text"
    and p2: "fs_with_thread (pointer_path ''/w'') = File pointer_text"
    by (simp_all add: fs_pointer_only_def fs_with_thread_def)
  have m: "fs_pointer_only (thread_path ''/w'' ''t1'') = Missing"
    by (simp add: fs_pointer_only_def thread_path_def pointer_path_def)
  have t: "fs_with_thread (thread_path ''/w'' ''t1'') = File ''{}''"
    by (simp add: fs_with_thread_def thread_path_def pointer_path_def)
  show ?thesis
    using load_defaults [where fs = fs_pointer_only and cwd = "''/w''" and content = pointer_text
            and r = ascii_runtime and json_text = "''{}''" and parse = parse_fails and doc = "JObj []"
            and e = "Error ''SyntaxError''"]
          load_defaults [where fs = fs_with_thread and cwd = "''/w''" and content = pointer_text
            and r = ascii_runtime and json_text = "''{}''" and parse = parse_empty_object and doc = "JObj []"
            and e = "Error ''SyntaxError''"]
          load_defaults [where fs = fs_with_thread and cwd = "''/w''" and content = pointer_text
            and r = ascii_runtime and json_text = "''{}''" and parse = parse_fails and doc = "JObj []"
            and e = "Error ''SyntaxError''"]
          p1 p2 m t
    by (simp add: trim_pointer parse_empty_object_def parse_fails_def)
qed

section \<open>Two turns at the end of a streak\<close>

text \<open>
  With a streak of 2, a successful result of one turn is answered by the fixed
  continuation message and the streak becomes 3; the same result arriving again completes
  the turn, and the streak is back at 0.
\<close>

lemma streak_example:
  "auto_continue_fires ''success'' 1 streak_two"
  "autoContinueCount (snd (loop_body quiet_world None (ResultMsg ''success'' 1) streak_two)) = 3"
  "\<not> auto_continue_fires ''success'' 1
       (snd (loop_body quiet_world None (ResultMsg ''success'' 1) streak_two))"
  "effects (snd (loop_body quiet_world None (ResultMsg ''success'' 1)
      (snd (loop_body quiet_world None (ResultMsg ''success'' 1) streak_two))))
    = [OnMessage (ResultMsg ''success'' 1), OnThinkingChange False,
       Push AUTO_CONTINUE_MESSAGE, OnThinkingChange True,
       OnMessage (ResultMsg ''success'' 1), OnThinkingChange False,
       OnReady, NextMessage, End]"
  by (simp_all add: auto_continue_fires_def streak_two_def initial_driver_def loop_body_result
        handle_result_def MAX_AUTO_CONTINUE_def updateThinking_def emit_def Let_def
        turn_complete_def quiet_world_def)

section \<open>A configuration that names a provider and no model\<close>

text \<open>
  A \<open>thread.json\<close> whose \<open>smartContinue\<close> section only sets the provider to \<open>openai\<close>
  loads as the default configuration with that provider: the model is then the default
  model of the configuration, a Claude model.
\<close>

lemma cfg_openai_loaded:
  "loadCheckpointConfig ascii_runtime fs_with_thread
     (\<lambda>json_text. Inr (JObj [(''config'',
        JObj [(''smartContinue'', JObj [(''provider'', JStr ''openai'')])])]))
     ''/w''
   = Loaded (Some cfg_openai)"
proof -
  have "fs_with_thread (pointer_path ''/w'') = File pointer_text"
    and "fs_with_thread (thread_path ''/w'' ''t1'') = File ''{}''"
    by (simp_all add: fs_with_thread_def thread_path_def pointer_path_def)
  then show ?thesis
    by (simp add: load_pointer_read trim_pointer existsSync_def readFileSync_def
          config_of_section_def nullish_def cfg_openai_def DEFAULT_SMART_CONTINUE_def)
qed

end
